theory Spec2Isabelle
  imports Main "HOL-Library.Word" "HOL-Library.Sublist"
begin

section \<open>Errors and the per-node temporary\<close>

text \<open>
  The kinds of failure the compiled-function classes raise (through \<open>casadi_error\<close>
  and \<open>casadi_assert\<close>), and the failures of the C++ containers themselves: a checked
  access out of range (\<open>at\<close>) and an unchecked one (\<open>operator[]\<close>).
\<close>

datatype error =
    NON_SYMBOLIC_INPUT
  | DUPLICATE_INPUT
  | EMPTY_OUTPUT_LIST
  | FREE_VARIABLE
  | WRONG_ARITY
  | OUT_OF_RANGE

text \<open>
  Nodes are identified by their address.  Every node carries an integer field
  \<open>temp\<close>; the store of these fields is passed explicitly.
\<close>

type_synonym temps = "nat \<Rightarrow> int"

definition temps0 :: temps where
  "temps0 = (\<lambda>n. 0)"

section \<open>Construction\<close>

subsection \<open>Scalar layer\<close>

text \<open>
  An \<open>SX\<close> matrix is used here through its vector of nonzero elements only; an
  element is a handle to a scalar node.
\<close>

type_synonym sx = "nat list"

record sxfunction =
  sx_inputv :: "sx list"
  sx_outputv :: "sx list"

text \<open>The loop that checks for duplicate entries, marking each element as it goes.\<close>

definition sx_mark_inputs :: "sx list \<Rightarrow> bool \<times> temps \<Rightarrow> bool \<times> temps" where
  "sx_mark_inputs inputv =
     fold (\<lambda>it. fold (\<lambda>itc (has_duplicates, temp).
             (has_duplicates \<or> temp itc \<noteq> 0, temp(itc := 1))) it) inputv"

definition sx_reset_inputs :: "sx list \<Rightarrow> temps \<Rightarrow> temps" where
  "sx_reset_inputs inputv = fold (\<lambda>it. fold (\<lambda>itc temp. temp(itc := 0)) it) inputv"

text \<open>
  \<open>SXFunctionInternal::SXFunctionInternal\<close>.  The result is the constructed object
  or the error raised, together with the temporaries as the constructor leaves them.
\<close>

definition SXFunctionInternal_new ::
  "temps \<Rightarrow> sx list \<Rightarrow> sx list \<Rightarrow> (error + sxfunction) \<times> temps" where
  "SXFunctionInternal_new temp inputv outputv =
     (let (has_duplicates, temp1) = sx_mark_inputs inputv (False, temp);
          temp2 = sx_reset_inputs inputv temp1
      in if has_duplicates then (Inl DUPLICATE_INPUT, temp2)
         else if outputv = [] then (Inl EMPTY_OUTPUT_LIST, temp2)
         else (Inr \<lparr>sx_inputv = inputv, sx_outputv = outputv\<rparr>, temp2))"

subsection \<open>Matrix layer\<close>

text \<open>
  A sparsity pattern is an interned object: \<open>sp_ptr\<close> is its address, the key of
  slot reuse.  An \<open>MX\<close> handle points to a node and answers \<open>isSymbolic\<close>,
  \<open>sparsity\<close> and \<open>getName\<close>.  Both classes are declared outside the files at
  hand; the fields below are what the constructor reads.
\<close>

record sparsity =
  sp_ptr :: nat
  sp_rows :: nat
  sp_cols :: nat
  sp_nnz :: nat

record mx =
  mx_node :: nat
  mx_symbolic :: bool
  mx_name :: string
  mx_sparsity :: sparsity

text \<open>\<open>isEmpty()\<close> with its default argument: no rows or no columns.\<close>

definition isEmpty :: "mx \<Rightarrow> bool" where
  "isEmpty m = (sp_rows (mx_sparsity m) = 0 \<or> sp_cols (mx_sparsity m) = 0)"

text \<open>\<open>MX::sym(name, sp)\<close>, creating its node at the address given.\<close>

definition MX_sym :: "nat \<Rightarrow> string \<Rightarrow> sparsity \<Rightarrow> mx" where
  "MX_sym addr name sp =
     \<lparr>mx_node = addr, mx_symbolic = True, mx_name = name, mx_sparsity = sp\<rparr>"

text \<open>Printing an index to a stream (\<open>ss << ind\<close>): its decimal digits.\<close>

function numToString :: "nat \<Rightarrow> string" where
  "numToString n =
     (if n < 10 then [''0123456789'' ! n]
      else numToString (n div 10) @ [''0123456789'' ! (n mod 10)])"
  by pat_completeness auto
termination
  by (relation "measure id") auto

declare numToString.simps [simp del]

record mxfunction =
  mx_inputv :: "mx list"
  mx_outputv :: "mx list"

text \<open>
  The first loop of \<open>MXFunctionInternal::MXFunctionInternal\<close>, from position
  \<open>ind\<close> on.  \<open>heap\<close> is the next unused node address: a node created by
  \<open>MX::sym\<close> is placed there, with its temporary zero.
\<close>

fun mx_check_inputs ::
  "nat \<Rightarrow> mx list \<Rightarrow> nat \<Rightarrow> temps \<Rightarrow> error + (mx list \<times> nat \<times> temps)" where
  "mx_check_inputs ind [] heap temp = Inr ([], heap, temp)"
| "mx_check_inputs ind (it # rest) heap temp =
     (if \<not> mx_symbolic it then
        (if isEmpty it then
           (case mx_check_inputs (ind + 1) rest (heap + 1) (temp(heap := 0)) of
              Inl e \<Rightarrow> Inl e
            | Inr (rest', heap', temp') \<Rightarrow>
                Inr (MX_sym heap (''r'' @ numToString ind) (mx_sparsity it) # rest', heap', temp'))
         else Inl NON_SYMBOLIC_INPUT)
      else
        (case mx_check_inputs (ind + 1) rest heap temp of
           Inl e \<Rightarrow> Inl e
         | Inr (rest', heap', temp') \<Rightarrow> Inr (it # rest', heap', temp')))"

definition mx_mark_inputs :: "mx list \<Rightarrow> bool \<times> temps \<Rightarrow> bool \<times> temps" where
  "mx_mark_inputs inputv =
     fold (\<lambda>it (has_duplicates, temp).
             (has_duplicates \<or> temp (mx_node it) \<noteq> 0, temp(mx_node it := 1))) inputv"

definition mx_reset_inputs :: "mx list \<Rightarrow> temps \<Rightarrow> temps" where
  "mx_reset_inputs inputv = fold (\<lambda>it temp. temp(mx_node it := 0)) inputv"

text \<open>\<open>MXFunctionInternal::MXFunctionInternal\<close>.\<close>

definition MXFunctionInternal_new ::
  "nat \<Rightarrow> temps \<Rightarrow> mx list \<Rightarrow> mx list \<Rightarrow> (error + mxfunction) \<times> temps" where
  "MXFunctionInternal_new heap temp inputv outputv =
     (case mx_check_inputs 0 inputv heap temp of
        Inl e \<Rightarrow> (Inl e, temp)
      | Inr (inputv', heap', temp0) \<Rightarrow>
          (let (has_duplicates, temp1) = mx_mark_inputs inputv' (False, temp0);
               temp2 = mx_reset_inputs inputv' temp1
           in if has_duplicates then (Inl DUPLICATE_INPUT, temp2)
              else (Inr \<lparr>mx_inputv = inputv', mx_outputv = outputv\<rparr>, temp2)))"

section \<open>Sparsity propagation: the pre-pass over the work array\<close>

text \<open>
  The bit-parallel sparsity propagator reinterprets the numeric work array as an array
  of 64-bit masks (\<open>bvec_t\<close>).  In the scalar layer \<open>work_\<close> is one flat vector; in
  the matrix layer \<open>work_\<close> is a vector of pairs of a dense matrix (its nonzero data)
  and an integer marker.
\<close>

type_synonym bvec_t = "64 word"

text \<open>\<open>SXFunctionInternal::spInit\<close> (built without OpenCL).\<close>

definition sx_spInit :: "bool \<Rightarrow> bvec_t list \<Rightarrow> bvec_t list" where
  "sx_spInit fwd iwork = (if \<not> fwd then replicate (length iwork) 0 else iwork)"

text \<open>\<open>MXFunctionInternal::spInit\<close>: the argument \<open>fwd\<close> is not read.\<close>

definition mx_spInit :: "bool \<Rightarrow> (bvec_t list \<times> int) list \<Rightarrow> (bvec_t list \<times> int) list" where
  "mx_spInit fwd work = map (\<lambda>it. (replicate (length (fst it)) 0, snd it)) work"


section \<open>The algorithm of the matrix layer\<close>

text \<open>
  Operation codes.  The evaluators single out a handful of codes and treat every other
  non-negative code alike (\<open>OP_OTHER\<close>); the node that stands for one output of
  a multiple-output node answers a negative code (\<open>OP_NEGATIVE\<close>) and gets no
  record of its own.
\<close>

datatype operation =
    OP_INPUT
  | OP_OUTPUT
  | OP_PARAMETER
  | OP_CONST
  | OP_CALL
  | OP_OTHER nat
  | OP_NEGATIVE

text \<open>
  One record of the algorithm (\<open>AlgEl\<close>): operation, owning handle to the node,
  work-vector indices of the arguments and of the results; a negative index stands
  for "none".
\<close>

record 'n algel =
  ae_op :: operation
  ae_data :: 'n
  ae_arg :: "int list"
  ae_res :: "int list"

text \<open>\<open>std::vector::resize\<close> with a fill value, and \<open>std::copy\<close> to the front.\<close>

definition resize :: "nat \<Rightarrow> 'a \<Rightarrow> 'a list \<Rightarrow> 'a list" where
  "resize n v xs = take n xs @ replicate (n - length xs) v"

definition copy_to :: "'a list \<Rightarrow> 'a list \<Rightarrow> 'a list" where
  "copy_to src dst = src @ drop (length src) dst"

text \<open>Assignment to an element of a vector of vectors.\<close>

definition upd2 :: "'a list list \<Rightarrow> nat \<Rightarrow> nat \<Rightarrow> 'a \<Rightarrow> 'a list list" where
  "upd2 xss i j v = xss[i := (xss ! i)[j := v]]"

subsection \<open>The spill tape\<close>










section \<open>Symbolic evaluation in the matrix layer\<close>

text \<open>
  The operator kernels receive pointers to expressions held in the symbolic work
  vector, in the derivative work vector, in the temporary outputs, or on the spill
  tape.  A pointer is modelled by the place it points to.
\<close>

datatype ptr = Null | Swork nat | OutTmp nat | Dwork nat nat | Tape nat

type_synonym MXPtrV = "ptr list"
type_synonym MXPtrVV = "ptr list list"

text \<open>The storage a kernel can reach through the pointers it is given.\<close>

record 'm store =
  s_swork :: "'m list"
  s_dwork :: "'m list list"
  s_output_tmp :: "'m list"
  s_tape :: "'m list"

definition deref :: "'m store \<Rightarrow> ptr \<Rightarrow> 'm option" where
  "deref st p = (case p of
       Null \<Rightarrow> None
     | Swork k \<Rightarrow> Some (s_swork st ! k)
     | OutTmp i \<Rightarrow> Some (s_output_tmp st ! i)
     | Dwork k d \<Rightarrow> Some (s_dwork st ! k ! d)
     | Tape k \<Rightarrow> Some (s_tape st ! k))"

text \<open>One invocation of a node's \<open>evaluateMX\<close>, by its arguments.\<close>

record 'n kcall =
  k_node :: 'n
  k_input :: MXPtrV
  k_output :: MXPtrV
  k_fwdSeed :: MXPtrVV
  k_fwdSens :: MXPtrVV
  k_adjSeed :: MXPtrVV
  k_adjSens :: MXPtrVV
  k_output_given :: bool

text \<open>
  What the evaluator uses of the expression class \<open>MX\<close> (type \<open>'m\<close>) and of the
  nodes (type \<open>'n\<close>), all declared outside the files at hand: \<open>size()\<close>,
  \<open>shape()\<close>, \<open>isEmpty(true)\<close>, \<open>MX::sparse(shape)\<close>, the default \<open>MX()\<close>,
  \<open>isEqual(a, b, depth)\<close>, \<open>setSparse(sp, true)\<close>, \<open>addToSum\<close>; of a
  node \<open>getOp()\<close>, \<open>getOutput(i)\<close>, the node as an expression, and its kernel
  \<open>evaluateMX\<close>, which acts on the storage it can reach; and the global option
  \<open>CasadiOptions::purgeSeeds\<close>.
\<close>

record ('m, 'n) mx_env =
  x_size :: "'m \<Rightarrow> nat"
  x_shape :: "'m \<Rightarrow> nat \<times> nat"
  x_isEmpty :: "'m \<Rightarrow> bool"
  x_sparse :: "nat \<times> nat \<Rightarrow> 'm"
  x_null :: 'm
  x_isEqual :: "'m \<Rightarrow> 'm \<Rightarrow> nat \<Rightarrow> bool"
  x_setSparse :: "'m \<Rightarrow> sparsity \<Rightarrow> 'm"
  x_addToSum :: "'m \<Rightarrow> 'm \<Rightarrow> 'm"
  n_getOp :: "'n \<Rightarrow> operation"
  n_getOutput :: "'n \<Rightarrow> nat \<Rightarrow> 'm"
  n_toMX :: "'n \<Rightarrow> 'm"
  n_evaluateMX :: "'n kcall \<Rightarrow> 'm store \<Rightarrow> 'm store"
  opt_purgeSeeds :: bool

text \<open>
  The members of an initialised function that \<open>evalMX\<close> reads: declared inputs
  and outputs, the algorithm, the size of the work vector, and the sparsity of the
  numeric input and output buffers.
\<close>

record ('m, 'n) mxfun =
  f_inputv :: "'m list"
  f_outputv :: "'m list"
  f_algorithm :: "'n algel list"
  f_worksize :: nat
  f_input_sp :: "sparsity list"
  f_output_sp :: "sparsity list"

definition shape :: "sparsity \<Rightarrow> nat \<times> nat" where
  "shape sp = (sp_rows sp, sp_cols sp)"

text \<open>
  The variables of \<open>evalMX\<close> that change while the algorithm is replayed.
  \<open>work_second\<close> holds the integer markers \<open>work_[k].second\<close>; \<open>res1\<close>,
  \<open>fsens\<close> and \<open>asens\<close> are the results handed back to the caller.
\<close>

record 'm evalstate =
  swork :: "'m list"
  dwork :: "'m list list"
  output_tmp :: "'m list"
  tape :: "((nat \<times> int) \<times> 'm) list"
  tt :: int
  work_second :: "int list"
  res1 :: "'m list"
  fsens :: "'m list list"
  asens :: "'m list list"

text \<open>
  The call parameters that stay fixed during the replay: the arguments in use
  (\<open>arg\<close>), the seeds, \<open>output_given\<close>, and the numbers of directions left
  after the trivial ones are skipped.
\<close>

record 'm evalctx =
  c_arg :: "'m list"
  c_fseed :: "'m list list"
  c_aseed :: "'m list list"
  c_output_given :: bool
  c_nfdir :: nat
  c_nadir :: nat

text \<open>
  Modelled from the spec: \<open>purgeSeeds\<close> is a member of the base class and is not
  in the files at hand.  Directions whose entire seed vector is structurally empty
  are dropped, from the seeds and from the sensitivities alike.
\<close>

definition purgeSeeds ::
  "('m \<Rightarrow> nat) \<Rightarrow> 'm store \<Rightarrow> MXPtrVV \<Rightarrow> MXPtrVV \<Rightarrow> MXPtrVV \<times> MXPtrVV" where
  "purgeSeeds nnz st seed sens =
     (let kept = filter (\<lambda>(sd, sn). \<not> list_all (\<lambda>p. case deref st p of
                                                         None \<Rightarrow> True
                                                       | Some m \<Rightarrow> nnz m = 0) sd)
                        (zip seed sens)
      in (map fst kept, map snd kept))"

text \<open>
  A kernel sees the work vectors and, in the forward sweep, the temporary outputs;
  in the reverse sweep, the spilled expressions.
\<close>

definition fwd_store :: "'m evalstate \<Rightarrow> 'm store" where
  "fwd_store s = \<lparr>s_swork = swork s, s_dwork = dwork s, s_output_tmp = output_tmp s, s_tape = []\<rparr>"

definition fwd_restore :: "'m store \<Rightarrow> 'm evalstate \<Rightarrow> 'm evalstate" where
  "fwd_restore st s = s\<lparr>swork := s_swork st, dwork := s_dwork st, output_tmp := s_output_tmp st\<rparr>"

definition adj_store :: "'m evalstate \<Rightarrow> 'm store" where
  "adj_store s = \<lparr>s_swork = swork s, s_dwork = dwork s, s_output_tmp = [],
                  s_tape = map snd (tape s)\<rparr>"

definition adj_restore :: "'m store \<Rightarrow> 'm evalstate \<Rightarrow> 'm evalstate" where
  "adj_restore st s = s\<lparr>swork := s_swork st, dwork := s_dwork st,
                         tape := zip (map fst (tape s)) (s_tape st)\<rparr>"

subsection \<open>Which kernel call is made\<close>

text \<open>
  The call made for an operator record in the forward sweep, if any.  For a node of
  operation \<open>OP_CALL\<close> the seeds are purged first; the test that selects the call
  without derivative arguments reads the purged sensitivities twice.
\<close>

definition fwd_call ::
  "('m, 'n) mx_env \<Rightarrow> bool \<Rightarrow> nat \<Rightarrow> 'n \<Rightarrow> MXPtrV \<Rightarrow> MXPtrV \<Rightarrow> MXPtrVV \<Rightarrow> MXPtrVV
     \<Rightarrow> 'm store \<Rightarrow> 'n kcall option" where
  "fwd_call env output_given nfdir data input_p output_p fseed_p fsens_p st =
     (if \<not> output_given \<or> nfdir > 0 then
        (if n_getOp env data = OP_CALL then
           (let (fseed_purged, fsens_purged) = purgeSeeds (x_size env) st fseed_p fsens_p
            in if length fsens_purged = 0 \<and> length fsens_purged = 0 then
                 Some \<lparr>k_node = data, k_input = input_p, k_output = output_p,
                       k_fwdSeed = [], k_fwdSens = [], k_adjSeed = [], k_adjSens = [],
                       k_output_given = output_given\<rparr>
               else if opt_purgeSeeds env then
                 Some \<lparr>k_node = data, k_input = input_p, k_output = output_p,
                       k_fwdSeed = fseed_purged, k_fwdSens = fsens_purged,
                       k_adjSeed = [], k_adjSens = [], k_output_given = output_given\<rparr>
               else
                 Some \<lparr>k_node = data, k_input = input_p, k_output = output_p,
                       k_fwdSeed = fseed_p, k_fwdSens = fsens_p,
                       k_adjSeed = [], k_adjSens = [], k_output_given = output_given\<rparr>)
         else
           Some \<lparr>k_node = data, k_input = input_p, k_output = output_p,
                 k_fwdSeed = fseed_p, k_fwdSens = fsens_p,
                 k_adjSeed = [], k_adjSens = [], k_output_given = output_given\<rparr>)
      else None)"

text \<open>The call made for an operator record in the reverse sweep.\<close>

definition adj_call ::
  "('m, 'n) mx_env \<Rightarrow> 'n \<Rightarrow> MXPtrV \<Rightarrow> MXPtrV \<Rightarrow> MXPtrVV \<Rightarrow> MXPtrVV \<Rightarrow> 'm store \<Rightarrow> 'n kcall" where
  "adj_call env data input_p output_p aseed_p asens_p st =
     (if n_getOp env data = OP_CALL then
        (let (aseed_purged, asens_purged) = purgeSeeds (x_size env) st aseed_p asens_p
         in if length aseed_purged = 0 \<and> length asens_purged = 0 then
              \<lparr>k_node = data, k_input = input_p, k_output = output_p,
               k_fwdSeed = [], k_fwdSens = [], k_adjSeed = [], k_adjSens = [],
               k_output_given = True\<rparr>
            else if opt_purgeSeeds env then
              \<lparr>k_node = data, k_input = input_p, k_output = output_p,
               k_fwdSeed = [], k_fwdSens = [],
               k_adjSeed = aseed_purged, k_adjSens = asens_purged, k_output_given = True\<rparr>
            else
              \<lparr>k_node = data, k_input = input_p, k_output = output_p,
               k_fwdSeed = [], k_fwdSens = [],
               k_adjSeed = aseed_p, k_adjSens = asens_p, k_output_given = True\<rparr>)
      else
        \<lparr>k_node = data, k_input = input_p, k_output = output_p,
         k_fwdSeed = [], k_fwdSens = [],
         k_adjSeed = aseed_p, k_adjSens = asens_p, k_output_given = True\<rparr>)"

subsection \<open>The forward sweep\<close>

text \<open>Spilling, for one result \<open>c\<close> of the record at \<open>alg_counter\<close>.\<close>

definition spill_one :: "nat \<Rightarrow> int \<Rightarrow> 'm evalstate \<Rightarrow> 'm evalstate" where
  "spill_one alg_counter c s =
     (if c \<ge> 0 \<and> tt s < int (length (tape s)) \<and> fst (tape s ! nat (tt s)) = (alg_counter, c)
      then s\<lparr>tape := (tape s)[nat (tt s) := (fst (tape s ! nat (tt s)), swork s ! nat c)],
              tt := tt s + 1\<rparr>
      else s)"

definition fwd_spill :: "'m evalctx \<Rightarrow> nat \<Rightarrow> 'n algel \<Rightarrow> 'm evalstate \<Rightarrow> 'm evalstate" where
  "fwd_spill cx alg_counter it s =
     (if c_nadir cx > 0 \<and> ae_op it \<noteq> OP_OUTPUT
      then fold (spill_one alg_counter) (ae_res it) s else s)"

text \<open>The branches for input, output and parameter records.\<close>

definition fwd_input ::
  "('m, 'n) mx_env \<Rightarrow> ('m, 'n) mxfun \<Rightarrow> 'm evalctx \<Rightarrow> 'n algel \<Rightarrow> 'm evalstate \<Rightarrow> 'm evalstate" where
  "fwd_input env f cx it s =
     (let i = nat (hd (ae_arg it)); r = nat (hd (ae_res it));
          sp_input = f_input_sp f ! i
      in s\<lparr>swork := (swork s)[r := x_setSparse env (c_arg cx ! i) sp_input],
            dwork := fold (\<lambda>d dw. upd2 dw r d (x_setSparse env (c_fseed cx ! d ! i) sp_input))
                       [0..<c_nfdir cx] (dwork s)\<rparr>)"

definition fwd_output :: "'m evalctx \<Rightarrow> 'n algel \<Rightarrow> 'm evalstate \<Rightarrow> 'm evalstate" where
  "fwd_output cx it s =
     (let a = nat (hd (ae_arg it)); r = nat (hd (ae_res it))
      in s\<lparr>res1 := (if \<not> c_output_given cx then (res1 s)[r := swork s ! a] else res1 s),
            fsens := fold (\<lambda>d fs. upd2 fs d r (dwork s ! a ! d)) [0..<c_nfdir cx] (fsens s)\<rparr>)"

definition fwd_parameter ::
  "('m, 'n) mx_env \<Rightarrow> 'm evalctx \<Rightarrow> 'n algel \<Rightarrow> 'm evalstate \<Rightarrow> 'm evalstate" where
  "fwd_parameter env cx it s =
     (let r = nat (hd (ae_res it))
      in s\<lparr>swork := (swork s)[r := n_toMX env (ae_data it)],
            dwork := fold (\<lambda>d dw. upd2 dw r d (x_null env)) [0..<c_nfdir cx] (dwork s)\<rparr>)"

text \<open>
  The branch for every other record.  First the known outputs are fetched, then the
  seeds and sensitivities of each direction are made ready (an empty one is replaced
  by a structural zero), then the kernel is called, and last the known outputs are
  saved to the work vector.
\<close>

definition fetch_outputs ::
  "('m, 'n) mx_env \<Rightarrow> 'n algel \<Rightarrow> 'm evalstate \<Rightarrow> 'm evalstate" where
  "fetch_outputs env it s =
     s\<lparr>output_tmp :=
         fold (\<lambda>i ot. if ae_res it ! i \<ge> 0 then ot[i := n_getOutput env (ae_data it) i] else ot)
           [0..<length (ae_res it)]
           (resize (length (ae_res it)) (x_null env) (output_tmp s))\<rparr>"

definition fwd_input_p :: "'n algel \<Rightarrow> MXPtrV" where
  "fwd_input_p it = map (\<lambda>el. if el < 0 then Null else Swork (nat el)) (ae_arg it)"

definition fwd_output_p :: "bool \<Rightarrow> 'n algel \<Rightarrow> MXPtrV" where
  "fwd_output_p output_given it =
     map (\<lambda>i. let el = ae_res it ! i
               in if el < 0 then Null else if output_given then OutTmp i else Swork (nat el))
       [0..<length (ae_res it)]"

definition seed_p :: "nat \<Rightarrow> int list \<Rightarrow> MXPtrVV" where
  "seed_p ndir slots =
     map (\<lambda>d. map (\<lambda>el. if el < 0 then Null else Dwork (nat el) d) slots) [0..<ndir]"

definition fwd_seed_dir ::
  "('m, 'n) mx_env \<Rightarrow> bool \<Rightarrow> 'n algel \<Rightarrow> nat \<Rightarrow> 'm evalstate \<Rightarrow> 'm evalstate" where
  "fwd_seed_dir env output_given it d s =
     (let s1 = fold (\<lambda>el s.
                  if el \<ge> 0 \<and> x_isEmpty env (dwork s ! nat el ! d) then
                    s\<lparr>dwork := upd2 (dwork s) (nat el) d
                         (if d = 0 then x_sparse env (x_shape env (swork s ! nat el))
                          else dwork s ! nat el ! 0)\<rparr>
                  else s) (ae_arg it) s
      in fold (\<lambda>oind s. let el = ae_res it ! oind in
                  if el \<ge> 0 \<and> x_isEmpty env (dwork s ! nat el ! d) then
                    s\<lparr>dwork := upd2 (dwork s) (nat el) d
                         (x_sparse env (x_shape env
                            (if output_given then output_tmp s ! oind else swork s ! nat el)))\<rparr>
                  else s) [0..<length (ae_res it)] s1)"

definition save_outputs :: "'n algel \<Rightarrow> 'm evalstate \<Rightarrow> 'm evalstate" where
  "save_outputs it s =
     fold (\<lambda>i s. let el = ae_res it ! i in
             if el \<ge> 0 then s\<lparr>swork := (swork s)[nat el := output_tmp s ! i]\<rparr> else s)
       [0..<length (ae_res it)] s"

definition fwd_operator ::
  "('m, 'n) mx_env \<Rightarrow> 'm evalctx \<Rightarrow> 'n algel \<Rightarrow> 'm evalstate \<Rightarrow> 'm evalstate" where
  "fwd_operator env cx it s =
     (let s1 = (if c_output_given cx then fetch_outputs env it s else s);
          s2 = fold (fwd_seed_dir env (c_output_given cx) it) [0..<c_nfdir cx] s1;
          s3 = (case fwd_call env (c_output_given cx) (c_nfdir cx) (ae_data it)
                       (fwd_input_p it) (fwd_output_p (c_output_given cx) it)
                       (seed_p (c_nfdir cx) (ae_arg it)) (seed_p (c_nfdir cx) (ae_res it))
                       (fwd_store s2) of
                  None \<Rightarrow> s2
                | Some call \<Rightarrow> fwd_restore (n_evaluateMX env call (fwd_store s2)) s2)
      in if c_output_given cx then save_outputs it s3 else s3)"

text \<open>One record of the forward sweep, and the sweep from \<open>alg_counter\<close> on.\<close>

definition fwd_step ::
  "('m, 'n) mx_env \<Rightarrow> ('m, 'n) mxfun \<Rightarrow> 'm evalctx \<Rightarrow> nat \<Rightarrow> 'n algel
     \<Rightarrow> 'm evalstate \<Rightarrow> 'm evalstate" where
  "fwd_step env f cx alg_counter it s =
     (let s0 = fwd_spill cx alg_counter it s
      in if ae_op it = OP_INPUT then fwd_input env f cx it s0
         else if ae_op it = OP_OUTPUT then fwd_output cx it s0
         else if ae_op it = OP_PARAMETER then fwd_parameter env cx it s0
         else fwd_operator env cx it s0)"


subsection \<open>The reverse sweep\<close>

text \<open>
  Marking a spilled element for recovery, for one result \<open>c\<close>, and recovering it
  after the record has been handled.
\<close>

definition mark_one :: "nat \<Rightarrow> int \<Rightarrow> 'm evalstate \<Rightarrow> 'm evalstate" where
  "mark_one alg_counter c s =
     (if c \<ge> 0 \<and> tt s \<ge> 0 \<and> fst (tape s ! nat (tt s)) = (alg_counter, c)
      then s\<lparr>work_second := (work_second s)[nat c := 1 + tt s], tt := tt s - 1\<rparr>
      else s)"

definition recover_one :: "int \<Rightarrow> 'm evalstate \<Rightarrow> 'm evalstate" where
  "recover_one c s =
     (if c \<ge> 0 \<and> work_second s ! nat c > 0
      then s\<lparr>swork := (swork s)[nat c := snd (tape s ! nat (work_second s ! nat c - 1))],
              work_second := (work_second s)[nat c := 0]\<rparr>
      else s)"

definition adj_input ::
  "('m, 'n) mx_env \<Rightarrow> ('m, 'n) mxfun \<Rightarrow> 'm evalctx \<Rightarrow> 'n algel \<Rightarrow> 'm evalstate \<Rightarrow> 'm evalstate" where
  "adj_input env f cx it s =
     (let i = nat (hd (ae_arg it)); r = nat (hd (ae_res it))
      in fold (\<lambda>d s.
           s\<lparr>asens := upd2 (asens s) d i
                (if x_isEmpty env (dwork s ! r ! d)
                 then x_sparse env (shape (f_input_sp f ! i)) else dwork s ! r ! d),
              dwork := upd2 (dwork s) r d (x_null env)\<rparr>) [0..<c_nadir cx] s)"

definition adj_output ::
  "('m, 'n) mx_env \<Rightarrow> ('m, 'n) mxfun \<Rightarrow> 'm evalctx \<Rightarrow> 'n algel \<Rightarrow> 'm evalstate \<Rightarrow> 'm evalstate" where
  "adj_output env f cx it s =
     (let a = nat (hd (ae_arg it)); r = nat (hd (ae_res it))
      in s\<lparr>dwork := fold (\<lambda>d dw. upd2 dw a d
                (x_addToSum env (dw ! a ! d)
                   (x_setSparse env (c_aseed cx ! d ! r) (f_output_sp f ! r))))
              [0..<c_nadir cx] (dwork s)\<rparr>)"

definition adj_parameter ::
  "('m, 'n) mx_env \<Rightarrow> 'm evalctx \<Rightarrow> 'n algel \<Rightarrow> 'm evalstate \<Rightarrow> 'm evalstate" where
  "adj_parameter env cx it s =
     (let r = nat (hd (ae_res it))
      in s\<lparr>dwork := fold (\<lambda>d dw. upd2 dw r d (x_null env)) [0..<c_nadir cx] (dwork s)\<rparr>)"

definition adj_input_p :: "'n algel \<Rightarrow> 'm evalstate \<Rightarrow> MXPtrV" where
  "adj_input_p it s =
     map (\<lambda>el. if el < 0 then Null
               else (let tmp = work_second s ! nat el
                     in if tmp = 0 then Swork (nat el) else Tape (nat (tmp - 1)))) (ae_arg it)"

definition adj_output_p :: "'n algel \<Rightarrow> MXPtrV" where
  "adj_output_p it = map (\<lambda>el. if el < 0 then Null else Swork (nat el)) (ae_res it)"

definition adj_seed_dir ::
  "('m, 'n) mx_env \<Rightarrow> 'n algel \<Rightarrow> nat \<Rightarrow> 'm evalstate \<Rightarrow> 'm evalstate" where
  "adj_seed_dir env it d s =
     (let zero = (\<lambda>el s.
                  if el \<ge> 0 \<and> x_isEmpty env (dwork s ! nat el ! d) then
                    s\<lparr>dwork := upd2 (dwork s) (nat el) d
                         (x_sparse env (x_shape env (swork s ! nat el)))\<rparr>
                  else s)
      in fold zero (ae_arg it) (fold zero (ae_res it) s))"

definition adj_operator ::
  "('m, 'n) mx_env \<Rightarrow> 'm evalctx \<Rightarrow> 'n algel \<Rightarrow> 'm evalstate \<Rightarrow> 'm evalstate" where
  "adj_operator env cx it s =
     (let input_p = adj_input_p it s;
          s1 = fold (adj_seed_dir env it) [0..<c_nadir cx] s;
          call = adj_call env (ae_data it) input_p (adj_output_p it)
                   (seed_p (c_nadir cx) (ae_res it)) (seed_p (c_nadir cx) (ae_arg it))
                   (adj_store s1)
      in adj_restore (n_evaluateMX env call (adj_store s1)) s1)"

definition adj_step ::
  "('m, 'n) mx_env \<Rightarrow> ('m, 'n) mxfun \<Rightarrow> 'm evalctx \<Rightarrow> nat \<Rightarrow> 'n algel
     \<Rightarrow> 'm evalstate \<Rightarrow> 'm evalstate" where
  "adj_step env f cx alg_counter it s =
     (let s0 = (if ae_op it \<noteq> OP_OUTPUT
                then fold (mark_one alg_counter) (rev (ae_res it)) s else s);
          s1 = (if ae_op it = OP_INPUT then adj_input env f cx it s0
                else if ae_op it = OP_OUTPUT then adj_output env f cx it s0
                else if ae_op it = OP_PARAMETER then adj_parameter env cx it s0
                else adj_operator env cx it s0)
      in if ae_op it \<noteq> OP_OUTPUT then fold recover_one (rev (ae_res it)) s1 else s1)"


subsection \<open>\<open>MXFunctionInternal::evalMX\<close>\<close>






section \<open>Symbolic evaluation in the scalar layer\<close>

text \<open>
  One record of the scalar algorithm: operation, three indices and a literal.  For
  an operation \<open>i0\<close> is the result and \<open>i1\<close>, \<open>i2\<close> are the arguments; for
  an input \<open>i1\<close>, \<open>i2\<close> select input and nonzero; for an output \<open>i0\<close>,
  \<open>i2\<close> select output and nonzero and \<open>i1\<close> is the argument.
\<close>

record 'd sx_algel =
  sx_op :: operation
  sx_i0 :: int
  sx_i1 :: int
  sx_i2 :: int
  sx_d :: 'd

text \<open>
  What the evaluator uses of the scalar expression class (type \<open>'e\<close>), declared
  outside the files at hand: \<open>isEqual(a, b, depth)\<close>; the built-in operations,
  expanded by the macros \<open>CASADI_MATH_FUN_BUILTIN\<close> (function value) and
  \<open>CASADI_MATH_DER_BUILTIN\<close> (the two partial derivatives), each \<open>None\<close> for
  a code that has no case; \<open>assignIfDuplicate\<close>; the case labels of
  \<open>CASADI_MATH_BINARY_BUILTIN\<close>; a default-constructed element, zero, sum and
  product.
\<close>

record 'e sx_env =
  e_isEqual :: "'e \<Rightarrow> 'e \<Rightarrow> nat \<Rightarrow> bool"
  e_fun :: "operation \<Rightarrow> ('e \<Rightarrow> 'e \<Rightarrow> 'e) option"
  e_der :: "operation \<Rightarrow> ('e \<Rightarrow> 'e \<Rightarrow> 'e \<Rightarrow> 'e \<times> 'e) option"
  e_assignIfDuplicate :: "'e \<Rightarrow> 'e \<Rightarrow> nat \<Rightarrow> 'e"
  e_binary :: "operation \<Rightarrow> bool"
  e_default :: 'e
  e_zero :: 'e
  e_add :: "'e \<Rightarrow> 'e \<Rightarrow> 'e"
  e_mul :: "'e \<Rightarrow> 'e \<Rightarrow> 'e"

text \<open>
  The members of an initialised scalar function that symbolic evaluation reads or
  writes.  A matrix is given by the vector of its nonzero elements.
\<close>

record ('e, 'd) sxfun =
  q_inputv :: "'e list list"
  q_outputv :: "'e list list"
  q_algorithm :: "'d sx_algel list"
  q_operations :: "'e list"
  q_constants :: "'e list"
  q_free_vars :: "'e list"
  q_s_work :: "'e list"




text \<open>
  The variables that change during the sweeps.  \<open>y_outputv\<close> is the member
  \<open>outputv_\<close>, which is what \<open>res\<close> refers to when the output is given.
\<close>

record 'e sxstate =
  y_s_work :: "'e list"
  y_outputv :: "'e list list"
  y_res1 :: "'e list list"
  y_fsens :: "'e list list list"
  y_asens :: "'e list list list"
  y_b_it :: nat
  y_c_it :: nat
  y_p_it :: nat
  y_pdwork :: "('e \<times> 'e) list"
  y_it1 :: nat
  y_it2 :: nat

definition upd3 :: "'a list list list \<Rightarrow> nat \<Rightarrow> nat \<Rightarrow> nat \<Rightarrow> 'a \<Rightarrow> 'a list list list" where
  "upd3 xsss d i j v = xsss[d := upd2 (xsss ! d) i j v]"

text \<open>One record of the evaluation of the algorithm with symbolic arguments.\<close>

definition sx_eval_step ::
  "'e sx_env \<Rightarrow> ('e, 'd) sxfun \<Rightarrow> bool \<Rightarrow> bool \<Rightarrow> 'e list list \<Rightarrow> 'd sx_algel
     \<Rightarrow> 'e sxstate \<Rightarrow> 'e sxstate" where
  "sx_eval_step env g output_given taping arg it s =
     (let i0 = nat (sx_i0 it); i1 = nat (sx_i1 it); i2 = nat (sx_i2 it) in
      case sx_op it of
        OP_INPUT \<Rightarrow> s\<lparr>y_s_work := (y_s_work s)[i0 := arg ! i1 ! i2]\<rparr>
      | OP_OUTPUT \<Rightarrow>
          (if output_given then s\<lparr>y_outputv := upd2 (y_outputv s) i0 i2 (y_s_work s ! i1)\<rparr>
           else s\<lparr>y_res1 := upd2 (y_res1 s) i0 i2 (y_s_work s ! i1)\<rparr>)
      | OP_CONST \<Rightarrow>
          s\<lparr>y_s_work := (y_s_work s)[i0 := q_constants g ! y_c_it s], y_c_it := y_c_it s + 1\<rparr>
      | OP_PARAMETER \<Rightarrow>
          s\<lparr>y_s_work := (y_s_work s)[i0 := q_free_vars g ! y_p_it s], y_p_it := y_p_it s + 1\<rparr>
      | _ \<Rightarrow>
          (let f = (if output_given then q_operations g ! y_b_it s
                    else e_assignIfDuplicate env
                           (case e_fun env (sx_op it) of
                              Some h \<Rightarrow> h (y_s_work s ! i1) (y_s_work s ! i2)
                            | None \<Rightarrow> e_default env)
                           (q_operations g ! y_b_it s) 2);
               s1 = s\<lparr>y_b_it := y_b_it s + 1\<rparr>;
               s2 = (if taping then
                       s1\<lparr>y_pdwork := (case e_der env (sx_op it) of
                                          Some h \<Rightarrow> (y_pdwork s1)[y_it1 s1 :=
                                                      h (y_s_work s1 ! i1) (y_s_work s1 ! i2) f]
                                        | None \<Rightarrow> y_pdwork s1),
                           y_it1 := y_it1 s1 + 1\<rparr>
                     else s1)
           in s2\<lparr>y_s_work := (y_s_work s2)[i0 := f]\<rparr>))"

text \<open>One record of the forward derivative sweep for direction \<open>dir\<close>.\<close>

definition sx_fwd_step ::
  "'e sx_env \<Rightarrow> 'e list list list \<Rightarrow> nat \<Rightarrow> 'd sx_algel \<Rightarrow> 'e sxstate \<Rightarrow> 'e sxstate" where
  "sx_fwd_step env fseed dir it s =
     (let i0 = nat (sx_i0 it); i1 = nat (sx_i1 it); i2 = nat (sx_i2 it) in
      case sx_op it of
        OP_INPUT \<Rightarrow> s\<lparr>y_s_work := (y_s_work s)[i0 := fseed ! dir ! i1 ! i2]\<rparr>
      | OP_OUTPUT \<Rightarrow> s\<lparr>y_fsens := upd3 (y_fsens s) dir i0 i2 (y_s_work s ! i1)\<rparr>
      | OP_CONST \<Rightarrow> s\<lparr>y_s_work := (y_s_work s)[i0 := e_zero env]\<rparr>
      | OP_PARAMETER \<Rightarrow> s\<lparr>y_s_work := (y_s_work s)[i0 := e_zero env]\<rparr>
      | _ \<Rightarrow>
         (let d = y_pdwork s ! y_it2 s in
          if e_binary env (sx_op it) then
             s\<lparr>y_s_work := (y_s_work s)[i0 :=
                   e_add env (e_mul env (fst d) (y_s_work s ! i1))
                             (e_mul env (snd d) (y_s_work s ! i2))],
               y_it2 := y_it2 s + 1\<rparr>
           else
             s\<lparr>y_s_work := (y_s_work s)[i0 := e_mul env (fst d) (y_s_work s ! i1)],
               y_it2 := y_it2 s + 1\<rparr>))"

text \<open>
  One record of the reverse sweep for direction \<open>dir\<close>; \<open>y_it2\<close> counts from
  the end of the tape of partial derivatives.
\<close>

definition sx_adj_step ::
  "'e sx_env \<Rightarrow> 'e list list list \<Rightarrow> nat \<Rightarrow> 'd sx_algel \<Rightarrow> 'e sxstate \<Rightarrow> 'e sxstate" where
  "sx_adj_step env aseed dir it s =
     (let i0 = nat (sx_i0 it); i1 = nat (sx_i1 it); i2 = nat (sx_i2 it) in
      case sx_op it of
        OP_INPUT \<Rightarrow>
          s\<lparr>y_asens := upd3 (y_asens s) dir i1 i2 (y_s_work s ! i0),
            y_s_work := (y_s_work s)[i0 := e_zero env]\<rparr>
      | OP_OUTPUT \<Rightarrow>
          s\<lparr>y_s_work := (y_s_work s)[i1 := e_add env (y_s_work s ! i1) (aseed ! dir ! i0 ! i2)]\<rparr>
      | OP_CONST \<Rightarrow> s\<lparr>y_s_work := (y_s_work s)[i0 := e_zero env]\<rparr>
      | OP_PARAMETER \<Rightarrow> s\<lparr>y_s_work := (y_s_work s)[i0 := e_zero env]\<rparr>
      | _ \<Rightarrow>
          (let d = rev (y_pdwork s) ! y_it2 s;
               seed = y_s_work s ! i0;
               w0 = (y_s_work s)[i0 := e_zero env];
               w1 = w0[i1 := e_add env (w0 ! i1) (e_mul env (fst d) seed)]
           in if e_binary env (sx_op it) then
                s\<lparr>y_s_work := w1[i2 := e_add env (w1 ! i2) (e_mul env (snd d) seed)],
                  y_it2 := y_it2 s + 1\<rparr>
              else s\<lparr>y_s_work := w1, y_it2 := y_it2 s + 1\<rparr>))"



section \<open>Compilation in the matrix layer\<close>

text \<open>
  What \<open>MXFunctionInternal::init\<close> reads of a node (class \<open>MXNode\<close>, declared
  outside the files at hand): \<open>getOp()\<close>, the dependencies \<open>dep(i)\<close>,
  \<open>getNumOutputs()\<close>, \<open>isMultipleOutput()\<close>, \<open>getFunctionOutput()\<close>,
  \<open>numInplace()\<close>, and the addresses of the interned sparsity patterns
  \<open>sparsity()\<close> and \<open>sparsity(c)\<close>.  The field \<open>temp\<close> of a node is kept in the
  store of temporaries.
\<close>

record mxnode =
  nd_op :: operation
  nd_dep :: "nat list"
  nd_nout :: nat
  nd_multi :: bool
  nd_fout :: nat
  nd_inplace :: nat
  nd_sparsity :: nat
  nd_sparsity_out :: "nat \<Rightarrow> nat"

type_synonym graph = "nat \<Rightarrow> mxnode"

text \<open>
  \<open>sort_depth_first\<close> belongs to the base class.  It is taken as a parameter: from
  the temporaries and the node pushed on the stack it yields the temporaries with
  the visited nodes marked, and the nodes it appends to the list.
\<close>

type_synonym sorter = "temps \<Rightarrow> nat \<Rightarrow> temps \<times> nat list"

text \<open>
  The list of all nodes: the sorted nodes of each output followed by a null pointer,
  which stands for the output instruction; then the inputs not reached.  An unchecked
  access out of range has no defined behaviour in the source; the model gives it
  \<open>!\<close> and \<open>[:=]\<close> of HOL.  A checked access (\<open>at\<close>) out of range is a
  failure.
\<close>

definition mx_collect ::
  "sorter \<Rightarrow> temps \<Rightarrow> nat list \<Rightarrow> nat list \<Rightarrow> temps \<times> nat option list" where
  "mx_collect sdf temp outputv inputv =
     (let (temp1, nodes1) =
            fold (\<lambda>ov (t, ns). let (t', new) = sdf t ov in (t', ns @ map Some new @ [None]))
              outputv (temp, [])
      in (temp1, fold (\<lambda>x ns. if temp1 x = 0 then ns @ [Some x] else ns) inputv nodes1))"

definition mx_number :: "nat option list \<Rightarrow> temps \<Rightarrow> temps" where
  "mx_number nodes temp =
     fold (\<lambda>i t. case nodes ! i of Some n \<Rightarrow> t(n := int i) | None \<Rightarrow> t) [0..<length nodes] temp"

text \<open>The state of the loop that emits the algorithm.\<close>

record build =
  b_temp :: temps
  b_alg :: "nat option algel list"
  b_symb_loc :: "(nat \<times> nat) list"
  b_refcount :: "int list"
  b_place_in_alg :: "int list"
  b_curr_oind :: nat

definition count_refs :: "int list \<Rightarrow> int list \<Rightarrow> int list" where
  "count_refs args refcount =
     fold (\<lambda>c rc. if c \<ge> 0 then rc[nat c := rc ! nat c + 1] else rc) args refcount"

definition mx_emit :: "nat option algel \<Rightarrow> build \<Rightarrow> build" where
  "mx_emit ae b =
     b\<lparr>b_refcount := count_refs (ae_arg ae) (b_refcount b),
       b_place_in_alg := b_place_in_alg b @ [int (length (b_alg b))],
       b_alg := b_alg b @ [ae]\<rparr>"

text \<open>One node of the list: a new record, or a function output saved in its parent's record.\<close>

definition mx_build_step :: "graph \<Rightarrow> nat list \<Rightarrow> nat option \<Rightarrow> build \<Rightarrow> error + build" where
  "mx_build_step G outputv nd b =
     (let opn = (case nd of None \<Rightarrow> OP_OUTPUT | Some n \<Rightarrow> nd_op (G n));
          b1 = (if opn = OP_PARAMETER
                then b\<lparr>b_symb_loc := b_symb_loc b @ [(length (b_alg b), the nd)]\<rparr> else b)
      in if opn \<noteq> OP_NEGATIVE then
           (if opn = OP_OUTPUT then
              (if b_curr_oind b1 < length outputv then
                 Inr (mx_emit \<lparr>ae_op = opn, ae_data = nd,
                                ae_arg = [b_temp b1 (outputv ! b_curr_oind b1)],
                                ae_res = [int (b_curr_oind b1)]\<rparr>
                        (b1\<lparr>b_curr_oind := b_curr_oind b1 + 1\<rparr>))
               else Inl OUT_OF_RANGE)
            else
              (let n = G (the nd) in
               Inr (mx_emit \<lparr>ae_op = opn, ae_data = nd,
                              ae_arg = map (b_temp b1) (nd_dep n),
                              ae_res = (if nd_multi n then replicate (nd_nout n) (- 1)
                                        else (replicate (nd_nout n) 0)[0 := b_temp b1 (the nd)])\<rparr>
                      b1)))
         else
           (let n = G (the nd);
                oind = nd_fout n;
                pind = nat (b_place_in_alg b1 ! nat (b_temp b1 (hd (nd_dep n))));
                parent = b_alg b1 ! pind
            in if oind < length (ae_res parent) then
                 (let otmp = ae_res parent ! oind;
                      b2 = (if otmp < 0
                            then b1\<lparr>b_alg := (b_alg b1)[pind :=
                                        parent\<lparr>ae_res := (ae_res parent)[oind := b_temp b1 (the nd)]\<rparr>]\<rparr>
                            else b1\<lparr>b_temp := (b_temp b1)(the nd := otmp)\<rparr>)
                  in Inr (b2\<lparr>b_place_in_alg := b_place_in_alg b2 @ [- 1]\<rparr>))
               else Inl OUT_OF_RANGE))"

fun mx_build :: "graph \<Rightarrow> nat list \<Rightarrow> nat option list \<Rightarrow> build \<Rightarrow> error + build" where
  "mx_build G outputv [] b = Inr b"
| "mx_build G outputv (nd # rest) b =
     (case mx_build_step G outputv nd b of
        Inl e \<Rightarrow> Inl e
      | Inr b' \<Rightarrow> mx_build G outputv rest b')"

subsection \<open>Places in the work vector\<close>

text \<open>
  The stacks of unused elements of the work vector are kept per sparsity pattern, by
  address.  \<open>a_log\<close> is not part of the source: it records, in order, every push
  (\<open>Freed\<close>), every pop (\<open>Reused\<close>) and every new element (\<open>Fresh\<close>), each
  with the address of the sparsity pattern and the work-vector index, and is never
  read by the allocation.
\<close>

datatype event = Freed nat int | Reused nat int | Fresh nat int

record alloc =
  a_refcount :: "int list"
  a_place :: "int list"
  a_unused_all :: "nat \<Rightarrow> int list"
  a_worksize :: nat
  a_log :: "event list"

text \<open>
  Dereferencing argument \<open>c\<close> of the record: the reference count of the node is
  decreased, its place is freed when the count hits zero and live variables are on,
  and the argument is pointed to the place in the work vector.
\<close>

definition mx_free_arg ::
  "graph \<Rightarrow> bool \<Rightarrow> nat option list \<Rightarrow> nat \<Rightarrow> nat option algel \<times> alloc
     \<Rightarrow> nat option algel \<times> alloc" where
  "mx_free_arg G live_variables nodes c = (\<lambda>(it, a).
     (let ch_ind = ae_arg it ! c in
      if ch_ind \<ge> 0 then
        (let remaining = a_refcount a ! nat ch_ind - 1;
             a1 = a\<lparr>a_refcount := (a_refcount a)[nat ch_ind := remaining]\<rparr>;
             a2 = (if live_variables \<and> remaining = 0 then
                     (let sp = nd_sparsity (G (the (nodes ! nat ch_ind)))
                      in a1\<lparr>a_unused_all := (a_unused_all a1)
                                (sp := a_place a1 ! nat ch_ind # a_unused_all a1 sp),
                             a_log := a_log a1 @ [Freed sp (a_place a1 ! nat ch_ind)]\<rparr>)
                   else a1)
         in (it\<lparr>ae_arg := (ae_arg it)[c := a_place a2 ! nat ch_ind]\<rparr>, a2))
      else (it, a)))"

text \<open>Allocating or reusing the place of result \<open>c\<close> of the record.\<close>

definition mx_alloc_res ::
  "graph \<Rightarrow> bool \<Rightarrow> nat \<Rightarrow> nat option algel \<times> alloc \<Rightarrow> nat option algel \<times> alloc" where
  "mx_alloc_res G live_variables c = (\<lambda>(it, a).
     if ae_res it ! c \<ge> 0 then
       (let sp = nd_sparsity_out (G (the (ae_data it))) c in
        if live_variables \<and> a_unused_all a sp \<noteq> [] then
          (let top = hd (a_unused_all a sp)
           in (it\<lparr>ae_res := (ae_res it)[c := top]\<rparr>,
               a\<lparr>a_place := (a_place a)[nat (ae_res it ! c) := top],
                 a_unused_all := (a_unused_all a)(sp := tl (a_unused_all a sp)),
                 a_log := a_log a @ [Reused sp top]\<rparr>))
        else
          (it\<lparr>ae_res := (ae_res it)[c := int (a_worksize a)]\<rparr>,
           a\<lparr>a_place := (a_place a)[nat (ae_res it ! c) := int (a_worksize a)],
             a_worksize := a_worksize a + 1,
             a_log := a_log a @ [Fresh sp (int (a_worksize a))]\<rparr>))
     else (it, a))"

text \<open>
  One record: the arguments that may be overwritten in place are freed first, then
  the results are placed, then the other arguments are freed; an output record only
  frees its argument.
\<close>

definition mx_alloc_step ::
  "graph \<Rightarrow> bool \<Rightarrow> nat option list \<Rightarrow> nat option algel \<Rightarrow> alloc
     \<Rightarrow> nat option algel \<times> alloc" where
  "mx_alloc_step G live_variables nodes it a =
     (let last_to_free = (if ae_op it = OP_OUTPUT then 1 else nd_inplace (G (the (ae_data it))));
          s1 = fold (mx_free_arg G live_variables nodes) (rev [0..<last_to_free]) (it, a)
      in if ae_op it = OP_OUTPUT then s1
         else
          (let s2 = fold (mx_alloc_res G live_variables) [0..<length (ae_res (fst s1))] s1
           in fold (mx_free_arg G live_variables nodes)
                (rev [last_to_free..<length (ae_arg (fst s2))]) s2))"

fun mx_alloc ::
  "graph \<Rightarrow> bool \<Rightarrow> nat option list \<Rightarrow> nat option algel list \<Rightarrow> alloc
     \<Rightarrow> nat option algel list \<times> alloc" where
  "mx_alloc G live_variables nodes [] a = ([], a)"
| "mx_alloc G live_variables nodes (it # rest) a =
     (let (it', a') = mx_alloc_step G live_variables nodes it a;
          (rest', a'') = mx_alloc G live_variables nodes rest a'
      in (it' # rest', a''))"

subsection \<open>Inputs and free variables\<close>

text \<open>
  After the places are set the temporaries are reset; each parameter record is
  marked with its place in the algorithm plus one; a record whose node is one of the
  declared inputs becomes an input instruction, and the parameters still marked are
  the free variables.
\<close>

definition mx_reset :: "nat option list \<Rightarrow> temps \<Rightarrow> temps" where
  "mx_reset nodes temp = fold (\<lambda>nd t. case nd of Some n \<Rightarrow> t(n := 0) | None \<Rightarrow> t) nodes temp"

definition mx_mark_symb :: "(nat \<times> nat) list \<Rightarrow> temps \<Rightarrow> temps" where
  "mx_mark_symb symb_loc temp = fold (\<lambda>(i, n) t. t(n := int i + 1)) symb_loc temp"

definition mx_input_instr ::
  "nat list \<Rightarrow> nat option algel list \<times> temps \<Rightarrow> nat option algel list \<times> temps" where
  "mx_input_instr inputv =
     fold (\<lambda>ind (alg, t).
             let i = t (inputv ! ind) - 1 in
             if i \<ge> 0
             then (alg[nat i := (alg ! nat i)\<lparr>ae_op := OP_INPUT, ae_arg := [int ind]\<rparr>],
                   t(inputv ! ind := 0))
             else (alg, t))
       [0..<length inputv]"

definition mx_locate_free :: "(nat \<times> nat) list \<Rightarrow> nat list \<times> temps \<Rightarrow> nat list \<times> temps" where
  "mx_locate_free symb_loc =
     fold (\<lambda>(i, n) (fv, t). if t n - 1 \<ge> 0 then (fv @ [n], t(n := 0)) else (fv, t)) symb_loc"

text \<open>\<open>MXFunctionInternal::init\<close>: what it leaves in the members of the function.\<close>

record mxinit =
  i_algorithm :: "nat option algel list"
  i_worksize :: nat
  i_free_vars :: "nat list"
  i_temp :: temps
  i_log :: "event list"

definition mx_init ::
  "sorter \<Rightarrow> graph \<Rightarrow> bool \<Rightarrow> temps \<Rightarrow> nat list \<Rightarrow> nat list \<Rightarrow> error + mxinit" where
  "mx_init sdf G live_variables temp inputv outputv =
     (let (temp1, nodes) = mx_collect sdf temp outputv inputv;
          temp2 = mx_number nodes temp1
      in case mx_build G outputv nodes
                \<lparr>b_temp = temp2, b_alg = [], b_symb_loc = [],
                 b_refcount = replicate (length nodes) 0, b_place_in_alg = [],
                 b_curr_oind = 0\<rparr> of
           Inl e \<Rightarrow> Inl e
         | Inr b \<Rightarrow>
            (let (alg1, a) = mx_alloc G live_variables nodes (b_alg b)
                               \<lparr>a_refcount = b_refcount b,
                                a_place = resize (length nodes) 0 (b_place_in_alg b),
                                a_unused_all = (\<lambda>sp. []), a_worksize = 0, a_log = []\<rparr>;
                 temp3 = mx_mark_symb (b_symb_loc b) (mx_reset nodes (b_temp b));
                 (alg2, temp4) = mx_input_instr inputv (alg1, temp3);
                 (free_vars, temp5) = mx_locate_free (b_symb_loc b) ([], temp4)
             in Inr \<lparr>i_algorithm = alg2, i_worksize = a_worksize a, i_free_vars = free_vars,
                     i_temp = temp5, i_log = a_log a\<rparr>))"





text \<open>The number of work-vector elements a record asks for.\<close>

definition nres :: "'n algel \<Rightarrow> nat" where
  "nres it = (if ae_op it = OP_OUTPUT then 0 else length (filter (\<lambda>c. c \<ge> 0) (ae_res it)))"

section \<open>Compilation in the scalar layer\<close>

text \<open>
  What \<open>SXFunctionInternal::init\<close> reads of a scalar node (class \<open>SXNode\<close>,
  declared outside the files at hand): \<open>getOp()\<close>, the two dependencies,
  \<open>getValue()\<close>, \<open>isConstant()\<close> and \<open>isSymbolic()\<close>.  The number of
  dependencies of an operation, \<open>casadi_math<double>::ndeps\<close>, is a parameter.
\<close>

record 'd sxnode =
  sn_op :: operation
  sn_dep0 :: nat
  sn_dep1 :: nat
  sn_value :: 'd
  sn_constant :: bool
  sn_symbolic :: bool

text \<open>The list of all nodes: one null pointer after the nodes of each output nonzero.\<close>

definition sx_collect ::
  "sorter \<Rightarrow> temps \<Rightarrow> sx list \<Rightarrow> sx list \<Rightarrow> temps \<times> nat option list" where
  "sx_collect sdf temp outputv inputv =
     (let (temp1, nodes1) =
            fold (\<lambda>it. fold (\<lambda>itc (t, ns). let (t', new) = sdf t itc
                                             in (t', ns @ map Some new @ [None])) it)
              outputv (temp, [])
      in (temp1, fold (\<lambda>it. fold (\<lambda>itc ns. if temp1 itc = 0 then ns @ [Some itc] else ns) it)
                   inputv nodes1))"

text \<open>
  The position of the next output nonzero: \<open>curr_oind\<close> is moved on over the
  outputs without nonzeros.
\<close>

fun sx_skip_empty :: "sx list \<Rightarrow> nat \<Rightarrow> nat" where
  "sx_skip_empty [] curr_oind = curr_oind"
| "sx_skip_empty (ov # rest) curr_oind =
     (if length ov \<noteq> 0 then curr_oind else sx_skip_empty rest (curr_oind + 1))"

definition sx_first_output :: "sx list \<Rightarrow> nat \<Rightarrow> nat" where
  "sx_first_output outputv curr_oind = sx_skip_empty (drop curr_oind outputv) curr_oind"

record 'd sbuild =
  sb_alg :: "'d sx_algel list"
  sb_symb_loc :: "(nat \<times> nat) list"
  sb_refcount :: "int list"
  sb_curr_oind :: nat
  sb_curr_nz :: nat

text \<open>
  \<open>refcount.at(i)++\<close> and \<open>--refcount.at(i)\<close>: checked accesses.
\<close>

definition bump_at :: "int \<Rightarrow> int \<Rightarrow> int list \<Rightarrow> error + int list" where
  "bump_at by i refcount =
     (if 0 \<le> i \<and> nat i < length refcount
      then Inr (refcount[nat i := refcount ! nat i + by]) else Inl OUT_OF_RANGE)"

fun bump_all :: "int \<Rightarrow> int list \<Rightarrow> int list \<Rightarrow> error + int list" where
  "bump_all by [] refcount = Inr refcount"
| "bump_all by (i # rest) refcount =
     (case bump_at by i refcount of
        Inl e \<Rightarrow> Inl e
      | Inr refcount' \<Rightarrow> bump_all by rest refcount')"

definition sx_count_deps :: "nat \<Rightarrow> 'd sx_algel \<Rightarrow> int list \<Rightarrow> error + int list" where
  "sx_count_deps ndeps ae refcount =
     bump_all 1 (map (\<lambda>c. if c = 0 then sx_i1 ae else sx_i2 ae) [0..<ndeps]) refcount"

text \<open>
  One node of the list.  A field of the new record that the source leaves
  unassigned is zero in the model, and so is the literal of a record that has none.
\<close>

definition sx_build_step ::
  "(operation \<Rightarrow> nat) \<Rightarrow> 'd \<Rightarrow> (nat \<Rightarrow> 'd sxnode) \<Rightarrow> temps \<Rightarrow> sx list \<Rightarrow> nat option
     \<Rightarrow> 'd sbuild \<Rightarrow> error + 'd sbuild" where
  "sx_build_step ndeps d0 G temp outputv nd b =
     (let opn = (case nd of None \<Rightarrow> OP_OUTPUT | Some n \<Rightarrow> sn_op (G n));
          r = (case opn of
                 OP_CONST \<Rightarrow>
                   Inr (\<lparr>sx_op = opn, sx_i0 = temp (the nd), sx_i1 = 0, sx_i2 = 0,
                         sx_d = sn_value (G (the nd))\<rparr>, b)
               | OP_PARAMETER \<Rightarrow>
                   Inr (\<lparr>sx_op = opn, sx_i0 = temp (the nd), sx_i1 = 0, sx_i2 = 0, sx_d = d0\<rparr>,
                        b\<lparr>sb_symb_loc := sb_symb_loc b @ [(length (sb_alg b), the nd)]\<rparr>)
               | OP_OUTPUT \<Rightarrow>
                   (if sb_curr_nz b < length (outputv ! sb_curr_oind b) then
                      Inr (\<lparr>sx_op = opn, sx_i0 = int (sb_curr_oind b),
                            sx_i1 = temp (outputv ! sb_curr_oind b ! sb_curr_nz b),
                            sx_i2 = int (sb_curr_nz b), sx_d = d0\<rparr>,
                           (if sb_curr_nz b + 1 \<ge> length (outputv ! sb_curr_oind b)
                            then b\<lparr>sb_curr_nz := 0,
                                   sb_curr_oind := sx_first_output outputv (sb_curr_oind b + 1)\<rparr>
                            else b\<lparr>sb_curr_nz := sb_curr_nz b + 1\<rparr>))
                    else Inl OUT_OF_RANGE)
               | _ \<Rightarrow>
                   Inr (\<lparr>sx_op = opn, sx_i0 = temp (the nd),
                         sx_i1 = temp (sn_dep0 (G (the nd))),
                         sx_i2 = temp (sn_dep1 (G (the nd))), sx_d = d0\<rparr>, b))
      in case r of
           Inl e \<Rightarrow> Inl e
         | Inr (ae, b1) \<Rightarrow>
             (case sx_count_deps (ndeps opn) ae (sb_refcount b1) of
                Inl e \<Rightarrow> Inl e
              | Inr refcount \<Rightarrow> Inr (b1\<lparr>sb_refcount := refcount, sb_alg := sb_alg b1 @ [ae]\<rparr>)))"

fun sx_build ::
  "(operation \<Rightarrow> nat) \<Rightarrow> 'd \<Rightarrow> (nat \<Rightarrow> 'd sxnode) \<Rightarrow> temps \<Rightarrow> sx list \<Rightarrow> nat option list
     \<Rightarrow> 'd sbuild \<Rightarrow> error + 'd sbuild" where
  "sx_build ndeps d0 G temp outputv [] b = Inr b"
| "sx_build ndeps d0 G temp outputv (nd # rest) b =
     (case sx_build_step ndeps d0 G temp outputv nd b of
        Inl e \<Rightarrow> Inl e
      | Inr b' \<Rightarrow> sx_build ndeps d0 G temp outputv rest b')"

subsection \<open>Places in the work vector\<close>

record sx_alloc =
  sa_refcount :: "int list"
  sa_place :: "int list"
  sa_unused :: "int list"
  sa_worksize :: nat

text \<open>
  Decreasing the reference counts of the children, last child first; a place is
  pushed on the stack when its count hits zero, whether live variables are on or not.
\<close>

fun sx_free_deps :: "nat \<Rightarrow> 'd sx_algel \<Rightarrow> sx_alloc \<Rightarrow> error + sx_alloc" where
  "sx_free_deps 0 it a = Inr a"
| "sx_free_deps (Suc c) it a =
     (let ch_ind = (if c = 0 then sx_i1 it else sx_i2 it) in
      case bump_at (- 1) ch_ind (sa_refcount a) of
        Inl e \<Rightarrow> Inl e
      | Inr refcount \<Rightarrow>
          sx_free_deps c it
            (if refcount ! nat ch_ind = 0
             then a\<lparr>sa_refcount := refcount, sa_unused := sa_place a ! nat ch_ind # sa_unused a\<rparr>
             else a\<lparr>sa_refcount := refcount\<rparr>))"

definition sx_place_result :: "bool \<Rightarrow> 'd sx_algel \<times> sx_alloc \<Rightarrow> 'd sx_algel \<times> sx_alloc" where
  "sx_place_result live_variables = (\<lambda>(it, a).
     if sx_op it \<noteq> OP_OUTPUT then
       (if live_variables \<and> sa_unused a \<noteq> [] then
          (it\<lparr>sx_i0 := hd (sa_unused a)\<rparr>,
           a\<lparr>sa_place := (sa_place a)[nat (sx_i0 it) := hd (sa_unused a)],
             sa_unused := tl (sa_unused a)\<rparr>)
        else
          (it\<lparr>sx_i0 := int (sa_worksize a)\<rparr>,
           a\<lparr>sa_place := (sa_place a)[nat (sx_i0 it) := int (sa_worksize a)],
             sa_worksize := sa_worksize a + 1\<rparr>))
     else (it, a))"

definition sx_save_children :: "nat \<Rightarrow> int list \<Rightarrow> 'd sx_algel \<Rightarrow> 'd sx_algel" where
  "sx_save_children ndeps place it =
     (let it1 = fold (\<lambda>c it. if c = 0 then it\<lparr>sx_i1 := place ! nat (sx_i1 it)\<rparr>
                               else it\<lparr>sx_i2 := place ! nat (sx_i2 it)\<rparr>) [0..<ndeps] it
      in if ndeps = 1 \<and> sx_op it1 \<noteq> OP_OUTPUT then it1\<lparr>sx_i2 := sx_i1 it1\<rparr> else it1)"

definition sx_alloc_step ::
  "(operation \<Rightarrow> nat) \<Rightarrow> bool \<Rightarrow> 'd sx_algel \<Rightarrow> sx_alloc \<Rightarrow> error + 'd sx_algel \<times> sx_alloc" where
  "sx_alloc_step ndeps live_variables it a =
     (case sx_free_deps (ndeps (sx_op it)) it a of
        Inl e \<Rightarrow> Inl e
      | Inr a1 \<Rightarrow>
          (let (it2, a2) = sx_place_result live_variables (it, a1)
           in Inr (sx_save_children (ndeps (sx_op it)) (sa_place a2) it2, a2)))"

fun sx_allocate ::
  "(operation \<Rightarrow> nat) \<Rightarrow> bool \<Rightarrow> 'd sx_algel list \<Rightarrow> sx_alloc
     \<Rightarrow> error + 'd sx_algel list \<times> sx_alloc" where
  "sx_allocate ndeps live_variables [] a = Inr ([], a)"
| "sx_allocate ndeps live_variables (it # rest) a =
     (case sx_alloc_step ndeps live_variables it a of
        Inl e \<Rightarrow> Inl e
      | Inr (it', a') \<Rightarrow>
          (case sx_allocate ndeps live_variables rest a' of
             Inl e \<Rightarrow> Inl e
           | Inr (rest', a'') \<Rightarrow> Inr (it' # rest', a'')))"

subsection \<open>Inputs and free variables\<close>

definition sx_input_instr ::
  "sx list \<Rightarrow> 'd sx_algel list \<times> temps \<Rightarrow> 'd sx_algel list \<times> temps" where
  "sx_input_instr inputv =
     fold (\<lambda>ind. fold (\<lambda>nz (alg, t).
                    let itc = inputv ! ind ! nz; i = t itc - 1 in
                    if i \<ge> 0
                    then (alg[nat i := (alg ! nat i)\<lparr>sx_op := OP_INPUT, sx_i1 := int ind,
                                                     sx_i2 := int nz\<rparr>],
                          t(itc := 0))
                    else (alg, t))
                  [0..<length (inputv ! ind)])
       [0..<length inputv]"

definition sx_locate_free :: "(nat \<times> nat) list \<Rightarrow> nat list \<times> temps \<Rightarrow> nat list \<times> temps" where
  "sx_locate_free symb_loc =
     fold (\<lambda>(i, n) (fv, t). if t n \<noteq> 0 then (fv @ [n], t(n := 0)) else (fv, t)) symb_loc"

text \<open>\<open>SXFunctionInternal::init\<close> (built without OpenCL, the just-in-time options off).\<close>

record 'd sxinit =
  j_algorithm :: "'d sx_algel list"
  j_worksize :: nat
  j_free_vars :: "nat list"
  j_constants :: "nat list"
  j_operations :: "nat list"
  j_temp :: temps

definition sx_init ::
  "sorter \<Rightarrow> (operation \<Rightarrow> nat) \<Rightarrow> 'd \<Rightarrow> (nat \<Rightarrow> 'd sxnode) \<Rightarrow> bool \<Rightarrow> temps \<Rightarrow> sx list
     \<Rightarrow> sx list \<Rightarrow> error + 'd sxinit" where
  "sx_init sdf ndeps d0 G live_variables temp inputv outputv =
     (let (temp1, nodes) = sx_collect sdf temp outputv inputv;
          temp2 = mx_number nodes temp1;
          constants = filter (\<lambda>n. sn_constant (G n)) (map the (filter (\<lambda>nd. nd \<noteq> None) nodes));
          operations = filter (\<lambda>n. \<not> sn_constant (G n) \<and> \<not> sn_symbolic (G n))
                         (map the (filter (\<lambda>nd. nd \<noteq> None) nodes))
      in case sx_build ndeps d0 G temp2 outputv nodes
                \<lparr>sb_alg = [], sb_symb_loc = [], sb_refcount = replicate (length nodes) 0,
                 sb_curr_oind = sx_first_output outputv 0, sb_curr_nz = 0\<rparr> of
           Inl e \<Rightarrow> Inl e
         | Inr b \<Rightarrow>
            (case sx_allocate ndeps live_variables (sb_alg b)
                    \<lparr>sa_refcount = sb_refcount b, sa_place = replicate (length nodes) 0,
                     sa_unused = [], sa_worksize = 0\<rparr> of
               Inl e \<Rightarrow> Inl e
             | Inr (alg1, a) \<Rightarrow>
                (let temp3 = mx_mark_symb (sb_symb_loc b) (mx_reset nodes temp2);
                     (alg2, temp4) = sx_input_instr inputv (alg1, temp3);
                     (free_vars, temp5) = sx_locate_free (sb_symb_loc b) ([], temp4)
                 in Inr \<lparr>j_algorithm = alg2, j_worksize = sa_worksize a, j_free_vars = free_vars,
                         j_constants = constants, j_operations = operations,
                         j_temp = temp5\<rparr>)))"

section \<open>Numeric evaluation\<close>

subsection \<open>The matrix layer\<close>

text \<open>
  The buffers of \<open>MXFunctionInternal::evaluate\<close>: the work vector (the first
  component of each element of \<open>work_\<close>), the input buffers and the output
  buffers, each a numeric matrix of type \<open>'v\<close>.
\<close>

record 'v numstate =
  w_work :: "'v list"
  w_input :: "'v list"
  w_output :: "'v list"

text \<open>
  What the evaluation uses of the numeric matrix class and of the nodes, both
  declared outside the files at hand.  \<open>d_set t x\<close> is the matrix \<open>t\<close> after
  \<open>t.set(x)\<close>; \<open>d_get x t\<close> is the matrix \<open>t\<close> after \<open>x.get(t)\<close>.  The
  kernel \<open>evaluateD\<close> of a node receives pointers to the arguments and to the
  results in the work vector, a null pointer for a negative index, and writes the
  results; it is given as a function from the node and the matrices pointed to
  (arguments, then results) to the new matrices of the results.
\<close>

record 'v num_env =
  d_set :: "'v \<Rightarrow> 'v \<Rightarrow> 'v"
  d_get :: "'v \<Rightarrow> 'v \<Rightarrow> 'v"
  d_evaluateD :: "nat option \<Rightarrow> 'v option list \<Rightarrow> 'v option list \<Rightarrow> 'v list"

text \<open>\<open>updatePointers\<close> for a record that is neither an input nor an output.\<close>

definition mx_pointers :: "'v list \<Rightarrow> int list \<Rightarrow> 'v option list" where
  "mx_pointers work ks = map (\<lambda>k. if k \<ge> 0 then Some (work ! nat k) else None) ks"

definition mx_store_results :: "int list \<Rightarrow> 'v list \<Rightarrow> 'v list \<Rightarrow> 'v list" where
  "mx_store_results res new work =
     fold (\<lambda>c w. if res ! c \<ge> 0 then w[nat (res ! c) := new ! c] else w) [0..<length res] work"

text \<open>One record of the numeric tape.\<close>

definition mx_eval_step :: "'v num_env \<Rightarrow> nat option algel \<Rightarrow> 'v numstate \<Rightarrow> 'v numstate" where
  "mx_eval_step env it s =
     (if ae_op it = OP_INPUT then
        s\<lparr>w_work := (w_work s)[nat (hd (ae_res it)) :=
             d_set env (w_work s ! nat (hd (ae_res it))) (w_input s ! nat (hd (ae_arg it)))]\<rparr>
      else if ae_op it = OP_OUTPUT then
        s\<lparr>w_output := (w_output s)[nat (hd (ae_res it)) :=
             d_get env (w_work s ! nat (hd (ae_arg it))) (w_output s ! nat (hd (ae_res it)))]\<rparr>
      else
        s\<lparr>w_work := mx_store_results (ae_res it)
             (d_evaluateD env (ae_data it) (mx_pointers (w_work s) (ae_arg it))
                (mx_pointers (w_work s) (ae_res it)))
             (w_work s)\<rparr>)"

text \<open>
  \<open>MXFunctionInternal::evaluate\<close> (profiling off) on the members that \<open>init\<close>
  has set up.  The result is the error raised, if any, and the buffers as the call
  leaves them.
\<close>

definition mx_evaluate ::
  "'v num_env \<Rightarrow> mxinit \<Rightarrow> 'v numstate \<Rightarrow> error option \<times> 'v numstate" where
  "mx_evaluate env r s =
     (if i_free_vars r \<noteq> [] then (Some FREE_VARIABLE, s)
      else (None, fold (mx_eval_step env) (i_algorithm r) s))"

subsection \<open>The scalar layer\<close>

text \<open>
  The buffers of \<open>SXFunctionInternal::evaluate\<close>; a matrix is given by the vector
  of its nonzero elements.
\<close>

record 'd sxnum =
  z_work :: "'d list"
  z_input :: "'d list list"
  z_output :: "'d list list"

text \<open>
  One record of the numeric tape.  \<open>builtin\<close> stands for the case labels of
  \<open>CASADI_MATH_FUN_BUILTIN\<close>: the function of a built-in operation, \<open>None\<close>
  for a code without a case, for which the \<open>switch\<close> does nothing.  The labels
  of a \<open>switch\<close> are distinct, so the three cases written out in the source are
  not among them.
\<close>

definition sx_num_step ::
  "(operation \<Rightarrow> ('d \<Rightarrow> 'd \<Rightarrow> 'd) option) \<Rightarrow> 'd sx_algel \<Rightarrow> 'd sxnum \<Rightarrow> 'd sxnum" where
  "sx_num_step builtin it s =
     (let i0 = nat (sx_i0 it); i1 = nat (sx_i1 it); i2 = nat (sx_i2 it) in
      case sx_op it of
        OP_CONST \<Rightarrow> s\<lparr>z_work := (z_work s)[i0 := sx_d it]\<rparr>
      | OP_INPUT \<Rightarrow> s\<lparr>z_work := (z_work s)[i0 := z_input s ! i1 ! i2]\<rparr>
      | OP_OUTPUT \<Rightarrow> s\<lparr>z_output := upd2 (z_output s) i0 i2 (z_work s ! i1)\<rparr>
      | opn \<Rightarrow>
         (case builtin opn of
            Some h \<Rightarrow> s\<lparr>z_work := (z_work s)[i0 := h (z_work s ! i1) (z_work s ! i2)]\<rparr>
          | None \<Rightarrow> s))"

text \<open>\<open>SXFunctionInternal::evaluate\<close> (built without OpenCL, profiling off).\<close>

definition sx_evaluate ::
  "(operation \<Rightarrow> ('d \<Rightarrow> 'd \<Rightarrow> 'd) option) \<Rightarrow> 'd sxinit \<Rightarrow> 'd sxnum
     \<Rightarrow> error option \<times> 'd sxnum" where
  "sx_evaluate builtin q s =
     (if j_free_vars q \<noteq> [] then (Some FREE_VARIABLE, s)
      else (None, fold (sx_num_step builtin) (j_algorithm q) s))"

subsection \<open>Output instructions\<close>

text \<open>
  The output buffers that the output records of a tape write, in the order of the
  tape: the index of the buffer in the matrix layer, buffer and nonzero in the
  scalar layer.
\<close>

definition mx_outs :: "'n algel list \<Rightarrow> nat list" where
  "mx_outs alg = map (\<lambda>it. nat (hd (ae_res it))) (filter (\<lambda>it. ae_op it = OP_OUTPUT) alg)"

definition sx_outs :: "'d sx_algel list \<Rightarrow> (nat \<times> nat) list" where
  "sx_outs alg =
     map (\<lambda>it. (nat (sx_i0 it), nat (sx_i2 it))) (filter (\<lambda>it. sx_op it = OP_OUTPUT) alg)"

text \<open>The nonzeros of the declared outputs of the scalar layer, output by output.\<close>

definition sx_pairs :: "sx list \<Rightarrow> (nat \<times> nat) list" where
  "sx_pairs outputv =
     concat (map (\<lambda>oind. map (\<lambda>nz. (oind, nz)) [0..<length (outputv ! oind)])
               [0..<length outputv])"

text \<open>
  What the compilation relies on in \<open>sort_depth_first\<close>: a node that it marks is a
  node that it appends to the list.
\<close>

definition marks_listed :: "sorter \<Rightarrow> bool" where
  "marks_listed sdf =
     (\<forall>t n x. fst (sdf t n) x \<noteq> 0 \<longrightarrow> t x \<noteq> 0 \<or> x \<in> set (snd (sdf t n)))"

text \<open>
  The result lists of the output records of a tape, and the invariant of the loop
  that emits the algorithm of the matrix layer: the output records written so far
  address the outputs \<open>0, 1, ...\<close> in this order, and every position kept for a
  parameter holds a parameter record.
\<close>

definition mx_out_res :: "'n algel list \<Rightarrow> int list list" where
  "mx_out_res alg = map ae_res (filter (\<lambda>it. ae_op it = OP_OUTPUT) alg)"

definition build_inv :: "nat list \<Rightarrow> build \<Rightarrow> bool" where
  "build_inv outputv b =
     (mx_out_res (b_alg b) = map (\<lambda>k. [int k]) [0..<b_curr_oind b]
      \<and> b_curr_oind b \<le> length outputv
      \<and> (\<forall>(pos, n) \<in> set (b_symb_loc b).
            pos < length (b_alg b) \<and> ae_op (b_alg b ! pos) = OP_PARAMETER))"

definition input_ok :: "nat list \<Rightarrow> 'n algel list \<times> temps \<Rightarrow> bool" where
  "input_ok inputv s =
     (\<forall>x \<in> set inputv. 1 \<le> snd s x \<longrightarrow>
        nat (snd s x - 1) < length (fst s) \<and> ae_op (fst s ! nat (snd s x - 1)) \<noteq> OP_OUTPUT)"

text \<open>
  The same for the scalar layer.  \<open>rest_pairs\<close> lists the nonzeros of the outputs
  from a position of the cursor \<open>(curr_oind, curr_nz)\<close> on.
\<close>

definition rest_pairs :: "sx list \<Rightarrow> nat \<Rightarrow> nat \<Rightarrow> (nat \<times> nat) list" where
  "rest_pairs outputv oind nz =
     (if oind < length outputv then
        map (\<lambda>z. (oind, z)) [nz..<length (outputv ! oind)]
        @ concat (map (\<lambda>j. map (\<lambda>z. (j, z)) [0..<length (outputv ! j)])
                    [Suc oind..<length outputv])
      else [])"

definition sbuild_inv :: "sx list \<Rightarrow> 'd sbuild \<Rightarrow> bool" where
  "sbuild_inv outputv b =
     (sx_outs (sb_alg b) @ rest_pairs outputv (sb_curr_oind b) (sb_curr_nz b) = sx_pairs outputv
      \<and> (sb_curr_oind b < length outputv \<longrightarrow> sb_curr_nz b < length (outputv ! sb_curr_oind b))
      \<and> (\<forall>(pos, n) \<in> set (sb_symb_loc b).
            pos < length (sb_alg b) \<and> sx_op (sb_alg b ! pos) = OP_PARAMETER))"

definition sx_input_ok :: "sx list \<Rightarrow> 'd sx_algel list \<times> temps \<Rightarrow> bool" where
  "sx_input_ok inputv s =
     (\<forall>x \<in> set (concat inputv). 1 \<le> snd s x \<longrightarrow>
        nat (snd s x - 1) < length (fst s) \<and> sx_op (fst s ! nat (snd s x - 1)) \<noteq> OP_OUTPUT)"

text \<open>Two vectors of vectors with the same lengths throughout.\<close>

definition same_shape :: "'a list list \<Rightarrow> 'b list list \<Rightarrow> bool" where
  "same_shape xss yss = (map length xss = map length yss)"

section \<open>A small instance\<close>










text \<open>
  A chain \<open>y = op(op(x))\<close> as a graph: node 0 is the parameter \<open>x\<close>, node
  \<open>n + 1\<close> is an operation on node \<open>n\<close>, and every node has the sparsity
  pattern at address 7.  On a chain the depth-first sort started at node \<open>n\<close>
  appends the unmarked nodes among \<open>0, ..., n\<close> in increasing order and marks
  them.
\<close>

definition ex_graph :: graph where
  "ex_graph n =
     \<lparr>nd_op = (if n = 0 then OP_PARAMETER else OP_OTHER n),
      nd_dep = (if n = 0 then [] else [n - 1]), nd_nout = 1, nd_multi = False, nd_fout = 0,
      nd_inplace = 0, nd_sparsity = 7, nd_sparsity_out = (\<lambda>c. 7)\<rparr>"

definition ex_sdf :: sorter where
  "ex_sdf t n =
     (let new = filter (\<lambda>k. t k = 0) [0..<n + 1]
      in (fold (\<lambda>k t. t(k := 1)) new t, new))"

text \<open>
  The same chain in the scalar layer: node 0 is the parameter, node \<open>n + 1\<close> is a
  unary operation on node \<open>n\<close>; a unary operation and an output instruction have
  one dependency, a constant and a parameter have none.
\<close>

definition ex_sgraph :: "nat \<Rightarrow> nat sxnode" where
  "ex_sgraph n =
     \<lparr>sn_op = (if n = 0 then OP_PARAMETER else OP_OTHER n),
      sn_dep0 = n - 1, sn_dep1 = n - 1, sn_value = 0, sn_constant = False,
      sn_symbolic = (n = 0)\<rparr>"

definition ex_ndeps :: "operation \<Rightarrow> nat" where
  "ex_ndeps opn = (case opn of OP_OTHER k \<Rightarrow> 1 | OP_OUTPUT \<Rightarrow> 1 | _ \<Rightarrow> 0)"

section \<open>Properties\<close>

subsection \<open>Construction\<close>


lemma sx_mark_flat:
  "fold (\<lambda>itc (has_duplicates, temp). (has_duplicates \<or> temp itc \<noteq> 0, temp(itc := (1::int)))) xs (b, t)
   = (b \<or> (\<exists>x\<in>set xs. t x \<noteq> 0) \<or> \<not> distinct xs, \<lambda>n. if n \<in> set xs then 1 else t n)"
  by (induction xs arbitrary: b t) (auto simp: fun_eq_iff)

lemma sx_mark_inputs_eq:
  "sx_mark_inputs inputv (b, t)
   = (b \<or> (\<exists>x\<in>set (concat inputv). t x \<noteq> 0) \<or> \<not> distinct (concat inputv),
      \<lambda>n. if n \<in> set (concat inputv) then 1 else t n)"
  unfolding sx_mark_inputs_def
  by (induction inputv arbitrary: b t) (auto simp: sx_mark_flat fun_eq_iff)

lemma mx_mark_inputs_eq:
  "mx_mark_inputs inputv (b, t)
   = (b \<or> (\<exists>x\<in>set inputv. t (mx_node x) \<noteq> 0) \<or> \<not> distinct (map mx_node inputv),
      \<lambda>n. if n \<in> mx_node ` set inputv then 1 else t n)"
  unfolding mx_mark_inputs_def
  by (induction inputv arbitrary: b t) (auto simp: fun_eq_iff image_iff)


lemma mx_check_inputs_Inl:
  "mx_check_inputs ind xs heap temp = Inl e \<Longrightarrow> e = NON_SYMBOLIC_INPUT"
proof (induction xs arbitrary: ind heap temp)
  case Nil
  then show ?case by simp
next
  case (Cons it rest)
  show ?case
  proof (cases "mx_symbolic it")
    case True
    with Cons.prems have "mx_check_inputs (ind + 1) rest heap temp = Inl e"
      by (simp split: sum.splits prod.splits)
    then show ?thesis by (rule Cons.IH)
  next
    case False
    show ?thesis
    proof (cases "isEmpty it")
      case True
      with False Cons.prems
      have "mx_check_inputs (ind + 1) rest (heap + 1) (temp(heap := 0)) = Inl e"
        by (simp split: sum.splits prod.splits)
      then show ?thesis by (rule Cons.IH)
    next
      case False
      with \<open>\<not> mx_symbolic it\<close> Cons.prems show ?thesis by simp
    qed
  qed
qed

lemma mx_check_inputs_fails:
  "(\<exists>e. mx_check_inputs ind xs heap temp = Inl e)
   = (\<exists>it\<in>set xs. \<not> mx_symbolic it \<and> \<not> isEmpty it)"
proof (induction xs arbitrary: ind heap temp)
  case Nil
  then show ?case by simp
next
  case (Cons it rest)
  show ?case
  proof (cases "mx_symbolic it")
    case True
    then have "(\<exists>e. mx_check_inputs ind (it # rest) heap temp = Inl e)
        = (\<exists>e. mx_check_inputs (ind + 1) rest heap temp = Inl e)"
      by (cases "mx_check_inputs (ind + 1) rest heap temp") auto
    also have "\<dots> = (\<exists>it\<in>set rest. \<not> mx_symbolic it \<and> \<not> isEmpty it)"
      by (rule Cons.IH)
    also have "\<dots> = (\<exists>it\<in>set (it # rest). \<not> mx_symbolic it \<and> \<not> isEmpty it)"
      using True by simp
    finally show ?thesis .
  next
    case False
    show ?thesis
    proof (cases "isEmpty it")
      case True
      with False have "(\<exists>e. mx_check_inputs ind (it # rest) heap temp = Inl e)
          = (\<exists>e. mx_check_inputs (ind + 1) rest (heap + 1) (temp(heap := 0)) = Inl e)"
        by (cases "mx_check_inputs (ind + 1) rest (heap + 1) (temp(heap := 0))") auto
      also have "\<dots> = (\<exists>it\<in>set rest. \<not> mx_symbolic it \<and> \<not> isEmpty it)"
        by (rule Cons.IH)
      also have "\<dots> = (\<exists>it\<in>set (it # rest). \<not> mx_symbolic it \<and> \<not> isEmpty it)"
        using True by simp
      finally show ?thesis .
    next
      case False
      with \<open>\<not> mx_symbolic it\<close> show ?thesis by auto
    qed
  qed
qed

lemma mx_check_inputs_error:
  "(mx_check_inputs ind xs heap temp = Inl e)
   = (e = NON_SYMBOLIC_INPUT \<and> (\<exists>it\<in>set xs. \<not> mx_symbolic it \<and> \<not> isEmpty it))"
  using mx_check_inputs_Inl [of ind xs heap temp] mx_check_inputs_fails [of ind xs heap temp]
  by blast

lemma mx_check_inputs_result:
  "mx_check_inputs ind xs heap temp = Inr (ys, heap', temp') \<Longrightarrow>
     length ys = length xs
     \<and> heap' = heap + length (filter (\<lambda>it. \<not> mx_symbolic it) xs)
     \<and> (\<forall>n. temp' n = (if heap \<le> n \<and> n < heap' then 0 else temp n))
     \<and> (\<forall>i<length xs. ys ! i =
           (if mx_symbolic (xs ! i) then xs ! i
            else MX_sym (heap + length (filter (\<lambda>it. \<not> mx_symbolic it) (take i xs)))
                   (''r'' @ numToString (ind + i)) (mx_sparsity (xs ! i))))"
proof (induction xs arbitrary: ind heap temp ys heap' temp')
  case Nil
  then show ?case by simp
next
  case (Cons it rest)
  show ?case
  proof (cases "mx_symbolic it")
    case True
    with Cons.prems obtain rest' where
      r: "mx_check_inputs (ind + 1) rest heap temp = Inr (rest', heap', temp')"
      and ys: "ys = it # rest'"
      by (auto split: sum.splits)
    from Cons.IH [OF r] True ys show ?thesis
      by (auto simp: nth_Cons split: nat.splits)
  next
    case False
    with Cons.prems obtain rest' where
      r: "mx_check_inputs (ind + 1) rest (heap + 1) (temp(heap := 0)) = Inr (rest', heap', temp')"
      and ys: "ys = MX_sym heap (''r'' @ numToString ind) (mx_sparsity it) # rest'"
      by (auto split: sum.splits if_splits)
    from Cons.IH [OF r] False ys show ?thesis
      by (auto simp: nth_Cons split: nat.splits)
  qed
qed

lemma mx_check_inputs_total:
  "(\<exists>r. mx_check_inputs ind xs heap temp = Inr r)
   = (\<not> (\<exists>it\<in>set xs. \<not> mx_symbolic it \<and> \<not> isEmpty it))"
  using mx_check_inputs_error [of ind xs heap temp]
  by (cases "mx_check_inputs ind xs heap temp") auto

lemma mx_check_inputs_distinct:
  "mx_check_inputs ind xs heap temp = Inr (ys, heap', temp') \<Longrightarrow>
   distinct (map mx_node (filter mx_symbolic xs)) \<Longrightarrow>
   \<forall>it\<in>set xs. mx_symbolic it \<longrightarrow> mx_node it < heap \<Longrightarrow>
     distinct (map mx_node ys)
     \<and> mx_node ` set ys \<subseteq> mx_node ` set (filter mx_symbolic xs) \<union> {heap..<heap'}"
proof (induction xs arbitrary: ind heap temp ys heap' temp')
  case Nil
  then show ?case by simp
next
  case (Cons it rest)
  show ?case
  proof (cases "mx_symbolic it")
    case True
    with Cons.prems(1) obtain rest' where
      r: "mx_check_inputs (ind + 1) rest heap temp = Inr (rest', heap', temp')"
      and ys: "ys = it # rest'"
      by (auto split: sum.splits)
    from Cons.IH [OF r] Cons.prems(2,3) True
    have ih: "distinct (map mx_node rest')"
      "mx_node ` set rest' \<subseteq> mx_node ` set (filter mx_symbolic rest) \<union> {heap..<heap'}"
      by auto
    from Cons.prems(2,3) True have "mx_node it \<notin> mx_node ` set (filter mx_symbolic rest)"
      "mx_node it < heap" by auto
    with ih have "mx_node it \<notin> mx_node ` set rest'" by auto
    with ih True ys show ?thesis by auto
  next
    case False
    with Cons.prems(1) obtain rest' where
      r: "mx_check_inputs (ind + 1) rest (heap + 1) (temp(heap := 0)) = Inr (rest', heap', temp')"
      and ys: "ys = MX_sym heap (''r'' @ numToString ind) (mx_sparsity it) # rest'"
      by (auto split: sum.splits if_splits)
    from Cons.prems(2,3) False
    have p: "distinct (map mx_node (filter mx_symbolic rest))"
      "\<forall>it\<in>set rest. mx_symbolic it \<longrightarrow> mx_node it < heap + 1"
      by auto
    from Cons.IH [OF r p]
    have ih: "distinct (map mx_node rest')"
      "mx_node ` set rest' \<subseteq> mx_node ` set (filter mx_symbolic rest) \<union> {heap + 1..<heap'}"
      by auto
    from Cons.prems(3) have "heap \<notin> mx_node ` set (filter mx_symbolic rest)" by auto
    with ih have "heap \<notin> mx_node ` set rest'" by auto
    moreover from mx_check_inputs_result [OF r] have "heap + 1 \<le> heap'" by simp
    ultimately show ?thesis using ih False ys by (auto simp: MX_sym_def)
  qed
qed


text \<open>
  C10.  The matrix-layer constructor raises the non-symbolic-input error exactly when
  some input is neither a symbolic primitive nor empty.  When every non-symbolic input
  is empty, and the symbolic inputs are pairwise distinct nodes with their temporaries
  reset, construction succeeds: each symbolic input is kept, and the input at position
  \<open>i\<close> that is non-symbolic and empty is replaced by a newly created symbolic
  primitive named \<open>r\<close> followed by \<open>i\<close>, of the same sparsity.
\<close>

theorem mx_constructor_nonsymbolic_inputs:
  "(fst (MXFunctionInternal_new heap temp inputv outputv) = Inl NON_SYMBOLIC_INPUT)
     = (\<exists>it\<in>set inputv. \<not> mx_symbolic it \<and> \<not> isEmpty it)
   \<and> ((\<forall>it\<in>set inputv. \<not> mx_symbolic it \<longrightarrow> isEmpty it)
        \<and> distinct (map mx_node (filter mx_symbolic inputv))
        \<and> (\<forall>it\<in>set inputv. mx_symbolic it \<longrightarrow> mx_node it < heap \<and> temp (mx_node it) = 0)
      \<longrightarrow> (\<exists>f. fst (MXFunctionInternal_new heap temp inputv outputv) = Inr f
             \<and> mx_outputv f = outputv
             \<and> length (mx_inputv f) = length inputv
             \<and> (\<forall>i<length inputv. mx_inputv f ! i =
                  (if mx_symbolic (inputv ! i) then inputv ! i
                   else MX_sym (heap + length (filter (\<lambda>it. \<not> mx_symbolic it) (take i inputv)))
                          (''r'' @ numToString i) (mx_sparsity (inputv ! i))))))"
proof (intro conjI impI)
  show "(fst (MXFunctionInternal_new heap temp inputv outputv) = Inl NON_SYMBOLIC_INPUT)
     = (\<exists>it\<in>set inputv. \<not> mx_symbolic it \<and> \<not> isEmpty it)"
  proof (cases "mx_check_inputs 0 inputv heap temp")
    case (Inl e)
    then show ?thesis
      using mx_check_inputs_error [of 0 inputv heap temp e]
      by (simp add: MXFunctionInternal_new_def)
  next
    case (Inr r)
    then have "\<not> (\<exists>it\<in>set inputv. \<not> mx_symbolic it \<and> \<not> isEmpty it)"
      using mx_check_inputs_total [of 0 inputv heap temp] by blast
    with Inr show ?thesis
      by (auto simp: MXFunctionInternal_new_def Let_def split: prod.splits)
  qed
next
  assume a: "(\<forall>it\<in>set inputv. \<not> mx_symbolic it \<longrightarrow> isEmpty it)
        \<and> distinct (map mx_node (filter mx_symbolic inputv))
        \<and> (\<forall>it\<in>set inputv. mx_symbolic it \<longrightarrow> mx_node it < heap \<and> temp (mx_node it) = 0)"
  then obtain ys heap' temp' where
    r: "mx_check_inputs 0 inputv heap temp = Inr (ys, heap', temp')"
    using mx_check_inputs_total [of 0 inputv heap temp] by (metis prod_cases3)
  note res = mx_check_inputs_result [OF r]
  from a have "distinct (map mx_node (filter mx_symbolic inputv))"
    "\<forall>it\<in>set inputv. mx_symbolic it \<longrightarrow> mx_node it < heap" by auto
  from mx_check_inputs_distinct [OF r this]
  have d: "distinct (map mx_node ys)"
    and sub: "mx_node ` set ys \<subseteq> mx_node ` set (filter mx_symbolic inputv) \<union> {heap..<heap'}"
    by auto
  have z: "\<forall>x\<in>set ys. temp' (mx_node x) = 0"
  proof
    fix x assume "x \<in> set ys"
    with sub have "mx_node x \<in> mx_node ` set (filter mx_symbolic inputv) \<union> {heap..<heap'}"
      by auto
    with a res show "temp' (mx_node x) = 0" by auto
  qed
  have "fst (mx_mark_inputs ys (False, temp')) = False"
    using d z by (simp add: mx_mark_inputs_eq)
  with r have "fst (MXFunctionInternal_new heap temp inputv outputv)
      = Inr \<lparr>mx_inputv = ys, mx_outputv = outputv\<rparr>"
    by (auto simp: MXFunctionInternal_new_def Let_def split: prod.splits)
  with res show "\<exists>f. fst (MXFunctionInternal_new heap temp inputv outputv) = Inr f
             \<and> mx_outputv f = outputv
             \<and> length (mx_inputv f) = length inputv
             \<and> (\<forall>i<length inputv. mx_inputv f ! i =
                  (if mx_symbolic (inputv ! i) then inputv ! i
                   else MX_sym (heap + length (filter (\<lambda>it. \<not> mx_symbolic it) (take i inputv)))
                          (''r'' @ numToString i) (mx_sparsity (inputv ! i))))"
    by simp
qed


theorem mx_constructor_nonsymbolic_inputs_witness:
  "\<not> mx_symbolic \<lparr>mx_node = 2, mx_symbolic = False, mx_name = ''e'',
        mx_sparsity = \<lparr>sp_ptr = 7, sp_rows = 0, sp_cols = 3, sp_nnz = 0\<rparr>\<rparr>
   \<and> isEmpty \<lparr>mx_node = 2, mx_symbolic = False, mx_name = ''e'',
        mx_sparsity = \<lparr>sp_ptr = 7, sp_rows = 0, sp_cols = 3, sp_nnz = 0\<rparr>\<rparr>
   \<and> (\<exists>f. fst (MXFunctionInternal_new 5 temps0
          [MX_sym 1 ''x'' \<lparr>sp_ptr = 6, sp_rows = 2, sp_cols = 1, sp_nnz = 2\<rparr>,
           \<lparr>mx_node = 2, mx_symbolic = False, mx_name = ''e'',
            mx_sparsity = \<lparr>sp_ptr = 7, sp_rows = 0, sp_cols = 3, sp_nnz = 0\<rparr>\<rparr>]
          [MX_sym 1 ''x'' \<lparr>sp_ptr = 6, sp_rows = 2, sp_cols = 1, sp_nnz = 2\<rparr>]) = Inr f
        \<and> mx_inputv f ! 1 = MX_sym 5 ''r1'' \<lparr>sp_ptr = 7, sp_rows = 0, sp_cols = 3, sp_nnz = 0\<rparr>)"
proof -
  let ?x = "MX_sym 1 ''x'' \<lparr>sp_ptr = 6, sp_rows = 2, sp_cols = 1, sp_nnz = 2\<rparr>"
  let ?e = "\<lparr>mx_node = 2, mx_symbolic = False, mx_name = ''e'',
        mx_sparsity = \<lparr>sp_ptr = 7, sp_rows = 0, sp_cols = 3, sp_nnz = 0\<rparr>\<rparr>"
  have e: "\<not> mx_symbolic ?e" "isEmpty ?e"
    by (simp_all add: isEmpty_def)
  have hyps: "(\<forall>it\<in>set [?x, ?e]. \<not> mx_symbolic it \<longrightarrow> isEmpty it)
        \<and> distinct (map mx_node (filter mx_symbolic [?x, ?e]))
        \<and> (\<forall>it\<in>set [?x, ?e]. mx_symbolic it \<longrightarrow> mx_node it < 5 \<and> temps0 (mx_node it) = 0)"
    by (simp add: isEmpty_def MX_sym_def temps0_def)
  with mx_constructor_nonsymbolic_inputs [of 5 temps0 "[?x, ?e]" "[?x]"]
  obtain f where f: "fst (MXFunctionInternal_new 5 temps0 [?x, ?e] [?x]) = Inr f"
    and nth: "\<forall>i<length [?x, ?e]. mx_inputv f ! i =
                  (if mx_symbolic ([?x, ?e] ! i) then [?x, ?e] ! i
                   else MX_sym (5 + length (filter (\<lambda>it. \<not> mx_symbolic it) (take i [?x, ?e])))
                          (''r'' @ numToString i) (mx_sparsity ([?x, ?e] ! i)))"
    by blast
  from nth [rule_format, of 1]
  have "mx_inputv f ! 1 = MX_sym 5 ''r1'' \<lparr>sp_ptr = 7, sp_rows = 0, sp_cols = 3, sp_nnz = 0\<rparr>"
    by (simp add: MX_sym_def numToString.simps)
  with e f show ?thesis by blast
qed

theorem mx_constructor_empty_output_counterexample:
  "fst (MXFunctionInternal_new 1 temps0
          [MX_sym 0 ''x'' \<lparr>sp_ptr = 6, sp_rows = 2, sp_cols = 1, sp_nnz = 2\<rparr>] [])
   = Inr \<lparr>mx_inputv = [MX_sym 0 ''x'' \<lparr>sp_ptr = 6, sp_rows = 2, sp_cols = 1, sp_nnz = 2\<rparr>],
          mx_outputv = []\<rparr>"
  by (simp add: MXFunctionInternal_new_def MX_sym_def temps0_def mx_mark_inputs_def
        mx_reset_inputs_def)

text \<open>
  C9 (as amended).  Constructing a scalar-layer function with an empty list of output
  expressions fails with the empty-output-list error, provided the input elements are
  pairwise distinct nodes with their temporaries reset (the duplicate check comes
  first).  The matrix-layer constructor never raises that error: it does not look at
  the output list, and with an empty list it succeeds or fails exactly as with any other.
\<close>

theorem constructor_empty_output_list:
  "(distinct (concat inputv) \<and> (\<forall>x\<in>set (concat inputv). temp x = 0)
      \<longrightarrow> fst (SXFunctionInternal_new temp inputv []) = Inl EMPTY_OUTPUT_LIST)
   \<and> fst (MXFunctionInternal_new heap mtemp minputv moutputv) \<noteq> Inl EMPTY_OUTPUT_LIST
   \<and> fst (MXFunctionInternal_new heap mtemp minputv [])
       = map_sum id (\<lambda>f. f\<lparr>mx_outputv := []\<rparr>) (fst (MXFunctionInternal_new heap mtemp minputv moutputv))"
proof (intro conjI impI)
  assume "distinct (concat inputv) \<and> (\<forall>x\<in>set (concat inputv). temp x = 0)"
  then show "fst (SXFunctionInternal_new temp inputv []) = Inl EMPTY_OUTPUT_LIST"
    by (simp add: SXFunctionInternal_new_def sx_mark_inputs_eq)
next
  show "fst (MXFunctionInternal_new heap mtemp minputv moutputv) \<noteq> Inl EMPTY_OUTPUT_LIST"
    using mx_check_inputs_error [of 0 minputv heap mtemp EMPTY_OUTPUT_LIST]
    by (auto simp: MXFunctionInternal_new_def Let_def split: sum.splits prod.splits)
next
  show "fst (MXFunctionInternal_new heap mtemp minputv [])
       = map_sum id (\<lambda>f. f\<lparr>mx_outputv := []\<rparr>) (fst (MXFunctionInternal_new heap mtemp minputv moutputv))"
    by (auto simp: MXFunctionInternal_new_def Let_def split: sum.splits prod.splits)
qed

theorem constructor_empty_output_list_witness:
  "distinct (concat [[1, 2], [3::nat]])
   \<and> temps0 1 = 0 \<and> temps0 2 = 0 \<and> temps0 3 = 0
   \<and> fst (SXFunctionInternal_new temps0 [[1, 2], [3]] []) = Inl EMPTY_OUTPUT_LIST"
  using constructor_empty_output_list [of "[[1, 2], [3]]" temps0]
  by (simp add: temps0_def)

subsection \<open>The pre-pass of the sparsity propagator\<close>

theorem spInit_sx_forward_counterexample:
  "sx_spInit True [1, 0] = [1, 0] \<and> sx_spInit True [1, 0] \<noteq> [0, 0]"
  by (simp add: sx_spInit_def)

text \<open>
  C8 (as amended).  The matrix-layer pre-pass zeroes every element of every work
  matrix whatever the direction, and keeps the shape of the work array.  The
  scalar-layer pre-pass zeroes the whole work array before a reverse pass only;
  before a forward pass it leaves the work array as it is.
\<close>

theorem spInit_prepass:
  "map fst (mx_spInit fwd work) = map (\<lambda>it. replicate (length (fst it)) 0) work
   \<and> map snd (mx_spInit fwd work) = map snd work
   \<and> sx_spInit False iwork = replicate (length iwork) 0
   \<and> sx_spInit True iwork = iwork"
  by (simp add: mx_spInit_def sx_spInit_def)

subsection \<open>Symbolic evaluation in the matrix layer\<close>





lemma fold_keeps:
  assumes "\<And>x s. h (g x s) = h s"
  shows "h (fold g xs s) = h s"
  using assms by (induction xs arbitrary: s) simp_all

lemma fwd_spill_keeps [simp]:
  "res1 (fwd_spill cx i it s) = res1 s"
  "fsens (fwd_spill cx i it s) = fsens s"
  "asens (fwd_spill cx i it s) = asens s"
  by (simp_all add: fwd_spill_def fold_keeps spill_one_def)

lemma fwd_input_keeps [simp]:
  "res1 (fwd_input env f cx it s) = res1 s"
  "fsens (fwd_input env f cx it s) = fsens s"
  "asens (fwd_input env f cx it s) = asens s"
  by (simp_all add: fwd_input_def Let_def)

lemma fwd_output_keeps [simp]:
  "c_output_given cx \<Longrightarrow> res1 (fwd_output cx it s) = res1 s"
  "c_nfdir cx = 0 \<Longrightarrow> fsens (fwd_output cx it s) = fsens s"
  "asens (fwd_output cx it s) = asens s"
  by (simp_all add: fwd_output_def Let_def)

lemma fwd_parameter_keeps [simp]:
  "res1 (fwd_parameter env cx it s) = res1 s"
  "fsens (fwd_parameter env cx it s) = fsens s"
  "asens (fwd_parameter env cx it s) = asens s"
  by (simp_all add: fwd_parameter_def Let_def)

lemma fwd_seed_dir_keeps [simp]:
  "res1 (fwd_seed_dir env og it d s) = res1 s"
  "fsens (fwd_seed_dir env og it d s) = fsens s"
  "asens (fwd_seed_dir env og it d s) = asens s"
  by (simp_all add: fwd_seed_dir_def Let_def fold_keeps)

lemma save_outputs_keeps [simp]:
  "res1 (save_outputs it s) = res1 s"
  "fsens (save_outputs it s) = fsens s"
  "asens (save_outputs it s) = asens s"
  by (simp_all add: save_outputs_def Let_def fold_keeps)

lemma fwd_operator_keeps [simp]:
  "res1 (fwd_operator env cx it s) = res1 s"
  "fsens (fwd_operator env cx it s) = fsens s"
  "asens (fwd_operator env cx it s) = asens s"
  by (simp_all add: fwd_operator_def Let_def fold_keeps fetch_outputs_def fwd_restore_def
        split: option.splits)

lemma fwd_step_keeps [simp]:
  "c_output_given cx \<Longrightarrow> res1 (fwd_step env f cx i it s) = res1 s"
  "c_nfdir cx = 0 \<Longrightarrow> fsens (fwd_step env f cx i it s) = fsens s"
  "asens (fwd_step env f cx i it s) = asens s"
  by (simp_all add: fwd_step_def Let_def)


lemma adj_seed_dir_keeps [simp]:
  "res1 (adj_seed_dir env it d s) = res1 s"
  "fsens (adj_seed_dir env it d s) = fsens s"
  by (simp_all add: adj_seed_dir_def Let_def fold_keeps)

lemma adj_step_keeps [simp]:
  "res1 (adj_step env f cx i it s) = res1 s"
  "fsens (adj_step env f cx i it s) = fsens s"
  by (simp_all add: adj_step_def Let_def fold_keeps mark_one_def recover_one_def
        adj_input_def adj_output_def adj_parameter_def adj_operator_def adj_restore_def)





















subsection \<open>Arguments that are the declared inputs\<close>

lemma copy_to_resize [simp]:
  "copy_to xs (resize (length xs) v ys) = xs"
  by (simp add: copy_to_def resize_def)


lemma sx_eval_step_res1 [simp]:
  "y_res1 (sx_eval_step env g True taping arg it s) = y_res1 s"
  by (simp add: sx_eval_step_def Let_def split: operation.splits option.splits)

lemma sx_fwd_step_res1 [simp]:
  "y_res1 (sx_fwd_step env fseed dir it s) = y_res1 s"
  by (simp add: sx_fwd_step_def Let_def split: operation.splits)

lemma sx_adj_step_res1 [simp]:
  "y_res1 (sx_adj_step env aseed dir it s) = y_res1 s"
  by (simp add: sx_adj_step_def Let_def split: operation.splits)






subsection \<open>The spill tape\<close>












lemma fwd_body_tape [simp]:
  "tape (fwd_input env f cx it s) = tape s" "tt (fwd_input env f cx it s) = tt s"
  "tape (fwd_output cx it s) = tape s" "tt (fwd_output cx it s) = tt s"
  "tape (fwd_parameter env cx it s) = tape s" "tt (fwd_parameter env cx it s) = tt s"
  by (simp_all add: fwd_input_def fwd_output_def fwd_parameter_def Let_def)

lemma fwd_seed_dir_tape [simp]:
  "tape (fwd_seed_dir env og it d s) = tape s" "tt (fwd_seed_dir env og it d s) = tt s"
  by (simp_all add: fwd_seed_dir_def Let_def fold_keeps)

lemma save_outputs_tape [simp]:
  "tape (save_outputs it s) = tape s" "tt (save_outputs it s) = tt s"
  by (simp_all add: save_outputs_def Let_def fold_keeps)

lemma fwd_operator_tape [simp]:
  "tape (fwd_operator env cx it s) = tape s" "tt (fwd_operator env cx it s) = tt s"
  by (simp_all add: fwd_operator_def Let_def fold_keeps fetch_outputs_def fwd_restore_def
        split: option.splits)

lemma spill_one_swork [simp]: "swork (spill_one i c s) = swork s"
  by (simp add: spill_one_def)

lemma fwd_spill_swork [simp]: "swork (fwd_spill cx i it s) = swork s"
  by (simp add: fwd_spill_def fold_keeps)







subsection \<open>Reuse of work-vector elements in the matrix layer\<close>














subsection \<open>Live variables and the length of the work vector\<close>

lemma mx_free_arg_keeps:
  "ae_res (fst (mx_free_arg G live nodes c s)) = ae_res (fst s)
   \<and> ae_op (fst (mx_free_arg G live nodes c s)) = ae_op (fst s)
   \<and> ae_data (fst (mx_free_arg G live nodes c s)) = ae_data (fst s)
   \<and> a_worksize (snd (mx_free_arg G live nodes c s)) = a_worksize (snd s)"
  by (cases s) (simp add: mx_free_arg_def Let_def)

lemma mx_free_args_keeps:
  "ae_res (fst (fold (mx_free_arg G live nodes) cs s)) = ae_res (fst s)
   \<and> ae_op (fst (fold (mx_free_arg G live nodes) cs s)) = ae_op (fst s)
   \<and> ae_data (fst (fold (mx_free_arg G live nodes) cs s)) = ae_data (fst s)
   \<and> a_worksize (snd (fold (mx_free_arg G live nodes) cs s)) = a_worksize (snd s)"
  by (induction cs arbitrary: s) (simp_all add: mx_free_arg_keeps)

lemma filter_take_Suc:
  "n < length xs \<Longrightarrow>
     length (filter P (take (Suc n) xs)) = length (filter P (take n xs)) + (if P (xs ! n) then 1 else 0)"
  by (simp add: take_Suc_conv_app_nth)

lemma mx_alloc_res_fold_le:
  "n \<le> length (ae_res (fst s)) \<Longrightarrow>
   length (ae_res (fst (fold (mx_alloc_res G live) [0..<n] s))) = length (ae_res (fst s))
   \<and> drop n (ae_res (fst (fold (mx_alloc_res G live) [0..<n] s))) = drop n (ae_res (fst s))
   \<and> a_worksize (snd (fold (mx_alloc_res G live) [0..<n] s))
       \<le> a_worksize (snd s) + length (filter (\<lambda>c. c \<ge> 0) (take n (ae_res (fst s))))"
proof (induction n)
  case 0
  show ?case by simp
next
  case (Suc n)
  let ?t = "fold (mx_alloc_res G live) [0..<n] s"
  obtain it a where t: "?t = (it, a)" by (cases ?t)
  from Suc have n: "n < length (ae_res (fst s))" by simp
  with Suc.IH t have ih: "length (ae_res it) = length (ae_res (fst s))"
    "drop n (ae_res it) = drop n (ae_res (fst s))"
    "a_worksize a \<le> a_worksize (snd s) + length (filter (\<lambda>c. c \<ge> 0) (take n (ae_res (fst s))))"
    by simp_all
  from ih(2) n ih(1) have e: "ae_res it ! n = ae_res (fst s) ! n"
    by (metis Cons_nth_drop_Suc nth_via_drop)
  from ih(2) have d: "drop (Suc n) (ae_res it) = drop (Suc n) (ae_res (fst s))"
    by (metis drop_drop plus_1_eq_Suc)
  have f: "fold (mx_alloc_res G live) [0..<Suc n] s = mx_alloc_res G live n (it, a)"
    by (simp add: t)
  show ?case
    unfolding f filter_take_Suc [OF n]
    using ih e d n
    by (auto simp: mx_alloc_res_def Let_def drop_update_cancel)
qed

lemma mx_alloc_res_fold_eq:
  "n \<le> length (ae_res (fst s)) \<Longrightarrow>
   length (ae_res (fst (fold (mx_alloc_res G False) [0..<n] s))) = length (ae_res (fst s))
   \<and> drop n (ae_res (fst (fold (mx_alloc_res G False) [0..<n] s))) = drop n (ae_res (fst s))
   \<and> a_worksize (snd (fold (mx_alloc_res G False) [0..<n] s))
       = a_worksize (snd s) + length (filter (\<lambda>c. c \<ge> 0) (take n (ae_res (fst s))))"
proof (induction n)
  case 0
  show ?case by simp
next
  case (Suc n)
  let ?t = "fold (mx_alloc_res G False) [0..<n] s"
  obtain it a where t: "?t = (it, a)" by (cases ?t)
  from Suc have n: "n < length (ae_res (fst s))" by simp
  with Suc.IH t have ih: "length (ae_res it) = length (ae_res (fst s))"
    "drop n (ae_res it) = drop n (ae_res (fst s))"
    "a_worksize a = a_worksize (snd s) + length (filter (\<lambda>c. c \<ge> 0) (take n (ae_res (fst s))))"
    by simp_all
  from ih(2) n ih(1) have e: "ae_res it ! n = ae_res (fst s) ! n"
    by (metis Cons_nth_drop_Suc nth_via_drop)
  from ih(2) have d: "drop (Suc n) (ae_res it) = drop (Suc n) (ae_res (fst s))"
    by (metis drop_drop plus_1_eq_Suc)
  have f: "fold (mx_alloc_res G False) [0..<Suc n] s = mx_alloc_res G False n (it, a)"
    by (simp add: t)
  show ?case
    unfolding f filter_take_Suc [OF n]
    using ih e d n
    by (auto simp: mx_alloc_res_def Let_def drop_update_cancel)
qed

lemma mx_alloc_step_le:
  "a_worksize (snd (mx_alloc_step G live nodes it a)) \<le> a_worksize a + nres it"
proof (cases "ae_op it = OP_OUTPUT")
  case True
  then show ?thesis
    by (simp add: mx_alloc_step_def Let_def nres_def mx_free_args_keeps mx_free_arg_keeps)
next
  case False
  let ?s1 = "fold (mx_free_arg G live nodes) (rev [0..<nd_inplace (G (the (ae_data it)))]) (it, a)"
  let ?s2 = "fold (mx_alloc_res G live) [0..<length (ae_res (fst ?s1))] ?s1"
  have k: "ae_res (fst ?s1) = ae_res it" "a_worksize (snd ?s1) = a_worksize a"
    using mx_free_args_keeps [of G live nodes _ "(it, a)"] by simp_all
  from mx_alloc_res_fold_le [of "length (ae_res (fst ?s1))" ?s1 G live]
  have "a_worksize (snd ?s2)
          \<le> a_worksize (snd ?s1) + length (filter (\<lambda>c. c \<ge> 0) (take (length (ae_res (fst ?s1))) (ae_res (fst ?s1))))"
    by blast
  then have "a_worksize (snd ?s2) \<le> a_worksize a + nres it"
    unfolding k using False by (simp add: nres_def)
  moreover have "mx_alloc_step G live nodes it a
      = fold (mx_free_arg G live nodes)
          (rev [nd_inplace (G (the (ae_data it)))..<length (ae_arg (fst ?s2))]) ?s2"
    using False by (simp add: mx_alloc_step_def Let_def)
  ultimately show ?thesis
    by (simp add: mx_free_args_keeps)
qed

lemma mx_alloc_step_eq:
  "a_worksize (snd (mx_alloc_step G False nodes it a)) = a_worksize a + nres it"
proof (cases "ae_op it = OP_OUTPUT")
  case True
  then show ?thesis
    by (simp add: mx_alloc_step_def Let_def nres_def mx_free_args_keeps mx_free_arg_keeps)
next
  case False
  let ?s1 = "fold (mx_free_arg G False nodes) (rev [0..<nd_inplace (G (the (ae_data it)))]) (it, a)"
  let ?s2 = "fold (mx_alloc_res G False) [0..<length (ae_res (fst ?s1))] ?s1"
  have k: "ae_res (fst ?s1) = ae_res it" "a_worksize (snd ?s1) = a_worksize a"
    using mx_free_args_keeps [of G False nodes _ "(it, a)"] by simp_all
  from mx_alloc_res_fold_eq [of "length (ae_res (fst ?s1))" ?s1 G]
  have "a_worksize (snd ?s2)
          = a_worksize (snd ?s1) + length (filter (\<lambda>c. c \<ge> 0) (take (length (ae_res (fst ?s1))) (ae_res (fst ?s1))))"
    by blast
  then have "a_worksize (snd ?s2) = a_worksize a + nres it"
    unfolding k using False by (simp add: nres_def)
  moreover have "mx_alloc_step G False nodes it a
      = fold (mx_free_arg G False nodes)
          (rev [nd_inplace (G (the (ae_data it)))..<length (ae_arg (fst ?s2))]) ?s2"
    using False by (simp add: mx_alloc_step_def Let_def)
  ultimately show ?thesis
    by (simp add: mx_free_args_keeps)
qed

lemma mx_alloc_le:
  "a_worksize (snd (mx_alloc G live nodes alg a)) \<le> a_worksize a + sum_list (map nres alg)"
proof (induction alg arbitrary: a)
  case Nil
  show ?case by simp
next
  case (Cons it rest)
  obtain it' a' where s: "mx_alloc_step G live nodes it a = (it', a')"
    by (cases "mx_alloc_step G live nodes it a")
  from mx_alloc_step_le [of G live nodes it a] s
  have w: "a_worksize a' \<le> a_worksize a + nres it" by simp
  from Cons.IH [of a'] w show ?case
    by (auto simp: s split: prod.splits)
qed

lemma mx_alloc_eq:
  "a_worksize (snd (mx_alloc G False nodes alg a)) = a_worksize a + sum_list (map nres alg)"
proof (induction alg arbitrary: a)
  case Nil
  show ?case by simp
next
  case (Cons it rest)
  obtain it' a' where s: "mx_alloc_step G False nodes it a = (it', a')"
    by (cases "mx_alloc_step G False nodes it a")
  from mx_alloc_step_eq [of G nodes it a] s
  have w: "a_worksize a' = a_worksize a + nres it" by simp
  from Cons.IH [of a'] w show ?case
    by (auto simp: s split: prod.splits)
qed

lemma mx_init_worksize:
  assumes "mx_init sdf G True temp inputv outputv = Inr r1"
  shows "\<exists>r0. mx_init sdf G False temp inputv outputv = Inr r0 \<and> i_worksize r1 \<le> i_worksize r0"
proof -
  obtain temp1 nodes where c: "mx_collect sdf temp outputv inputv = (temp1, nodes)"
    by (cases "mx_collect sdf temp outputv inputv")
  let ?b0 = "\<lparr>b_temp = mx_number nodes temp1, b_alg = [], b_symb_loc = [],
                 b_refcount = replicate (length nodes) 0, b_place_in_alg = [],
                 b_curr_oind = 0\<rparr>"
  from assms c obtain b where b: "mx_build G outputv nodes ?b0 = Inr b"
    by (auto simp: mx_init_def Let_def split: sum.splits)
  let ?a0 = "\<lparr>a_refcount = b_refcount b,
              a_place = resize (length nodes) 0 (b_place_in_alg b),
              a_unused_all = (\<lambda>sp. []), a_worksize = 0, a_log = []\<rparr>"
  from assms c b have w1: "i_worksize r1 = a_worksize (snd (mx_alloc G True nodes (b_alg b) ?a0))"
    by (auto simp: mx_init_def Let_def split: prod.splits)
  have "\<exists>r0. mx_init sdf G False temp inputv outputv = Inr r0
        \<and> i_worksize r0 = a_worksize (snd (mx_alloc G False nodes (b_alg b) ?a0))"
    using c b by (simp add: mx_init_def Let_def split: prod.splits)
  then obtain r0 where r0: "mx_init sdf G False temp inputv outputv = Inr r0"
    and w0: "i_worksize r0 = a_worksize (snd (mx_alloc G False nodes (b_alg b) ?a0))"
    by blast
  from mx_alloc_le [of G True nodes "b_alg b" ?a0]
       mx_alloc_eq [of G nodes "b_alg b" ?a0] w1 w0
  have "i_worksize r1 \<le> i_worksize r0" by simp
  with r0 show ?thesis by blast
qed


lemma sx_free_deps_sim:
  "sa_refcount a = sa_refcount a' \<Longrightarrow>
   (case sx_free_deps n it a of
      Inl e \<Rightarrow> sx_free_deps n it a' = Inl e
    | Inr b \<Rightarrow> sa_worksize b = sa_worksize a
               \<and> (\<exists>b'. sx_free_deps n it a' = Inr b' \<and> sa_refcount b' = sa_refcount b
                        \<and> sa_worksize b' = sa_worksize a'))"
proof (induction n arbitrary: a a')
  case 0
  then show ?case by simp
next
  case (Suc n)
  let ?ch = "if n = 0 then sx_i1 it else sx_i2 it"
  show ?case
  proof (cases "bump_at (- 1) ?ch (sa_refcount a)")
    case (Inl e)
    with Suc.prems show ?thesis by (simp add: Let_def)
  next
    case (Inr rc)
    let ?f = "\<lambda>a. if rc ! nat ?ch = 0
                 then a\<lparr>sa_refcount := rc, sa_unused := sa_place a ! nat ?ch # sa_unused a\<rparr>
                 else a\<lparr>sa_refcount := rc\<rparr>"
    have r: "sa_refcount (?f a) = sa_refcount (?f a')" by simp
    have w: "sa_worksize (?f a) = sa_worksize a" "sa_worksize (?f a') = sa_worksize a'"
      by simp_all
    have e: "sx_free_deps (Suc n) it a = sx_free_deps n it (?f a)"
      "sx_free_deps (Suc n) it a' = sx_free_deps n it (?f a')"
      using Inr Suc.prems by (simp_all add: Let_def)
    from Suc.IH [OF r] show ?thesis
      unfolding e w by simp
  qed
qed

lemma sx_place_result_live:
  "sa_refcount (snd (sx_place_result live (it, a))) = sa_refcount a
   \<and> sa_worksize (snd (sx_place_result live (it, a)))
       \<le> sa_worksize a + (if sx_op it \<noteq> OP_OUTPUT then 1 else 0)"
  by (simp add: sx_place_result_def)

lemma sx_place_result_nolive:
  "sa_refcount (snd (sx_place_result False (it, a))) = sa_refcount a
   \<and> sa_worksize (snd (sx_place_result False (it, a)))
       = sa_worksize a + (if sx_op it \<noteq> OP_OUTPUT then 1 else 0)"
  by (simp add: sx_place_result_def)

lemma sx_alloc_step_sim:
  assumes "sa_refcount a1 = sa_refcount a0" "sa_worksize a1 \<le> sa_worksize a0"
  shows "case sx_alloc_step ndeps True it a1 of
           Inl e \<Rightarrow> sx_alloc_step ndeps False it a0 = Inl e
         | Inr (it1, b1) \<Rightarrow>
             (\<exists>it0 b0. sx_alloc_step ndeps False it a0 = Inr (it0, b0)
                \<and> sa_refcount b1 = sa_refcount b0 \<and> sa_worksize b1 \<le> sa_worksize b0)"
proof (cases "sx_free_deps (ndeps (sx_op it)) it a1")
  case (Inl e)
  with sx_free_deps_sim [OF assms(1), of "ndeps (sx_op it)" it]
  show ?thesis by (simp add: sx_alloc_step_def)
next
  case (Inr c1)
  with sx_free_deps_sim [OF assms(1), of "ndeps (sx_op it)" it]
  obtain c0 where c: "sx_free_deps (ndeps (sx_op it)) it a0 = Inr c0"
    "sa_refcount c0 = sa_refcount c1" "sa_worksize c0 = sa_worksize a0"
    "sa_worksize c1 = sa_worksize a1"
    by auto
  obtain it1 b1 where p1: "sx_place_result True (it, c1) = (it1, b1)"
    by (cases "sx_place_result True (it, c1)")
  obtain it0 b0 where p0: "sx_place_result False (it, c0) = (it0, b0)"
    by (cases "sx_place_result False (it, c0)")
  from sx_place_result_live [of True it c1] p1
  have l: "sa_refcount b1 = sa_refcount c1"
    "sa_worksize b1 \<le> sa_worksize c1 + (if sx_op it \<noteq> OP_OUTPUT then 1 else 0)"
    by simp_all
  from sx_place_result_nolive [of it c0] p0
  have n: "sa_refcount b0 = sa_refcount c0"
    "sa_worksize b0 = sa_worksize c0 + (if sx_op it \<noteq> OP_OUTPUT then 1 else 0)"
    by simp_all
  from l n c assms(2) have "sa_refcount b1 = sa_refcount b0" "sa_worksize b1 \<le> sa_worksize b0"
    by simp_all
  then show ?thesis
    by (simp add: sx_alloc_step_def Inr c(1) p1 p0)
qed

lemma sx_allocate_sim:
  "sa_refcount a1 = sa_refcount a0 \<Longrightarrow> sa_worksize a1 \<le> sa_worksize a0 \<Longrightarrow>
   (case sx_allocate ndeps True alg a1 of
      Inl e \<Rightarrow> sx_allocate ndeps False alg a0 = Inl e
    | Inr (alg1, b1) \<Rightarrow>
        (\<exists>alg0 b0. sx_allocate ndeps False alg a0 = Inr (alg0, b0)
           \<and> sa_worksize b1 \<le> sa_worksize b0))"
proof (induction alg arbitrary: a1 a0)
  case Nil
  then show ?case by simp
next
  case (Cons it rest)
  show ?case
  proof (cases "sx_alloc_step ndeps True it a1")
    case (Inl e)
    with sx_alloc_step_sim [OF Cons.prems, of ndeps it] show ?thesis by simp
  next
    case (Inr p)
    obtain it1 b1 where p: "p = (it1, b1)" by (cases p)
    from sx_alloc_step_sim [OF Cons.prems, of ndeps it] Inr p
    obtain it0 b0 where s0: "sx_alloc_step ndeps False it a0 = Inr (it0, b0)"
      and r: "sa_refcount b1 = sa_refcount b0" "sa_worksize b1 \<le> sa_worksize b0"
      by auto
    from Cons.IH [OF r] show ?thesis
      by (auto simp: Inr p s0 split: sum.splits)
  qed
qed

lemma sx_init_worksize:
  assumes "sx_init sdf ndeps d0 G True temp inputv outputv = Inr q1"
  shows "\<exists>q0. sx_init sdf ndeps d0 G False temp inputv outputv = Inr q0
               \<and> j_worksize q1 \<le> j_worksize q0"
proof -
  obtain temp1 nodes where c: "sx_collect sdf temp outputv inputv = (temp1, nodes)"
    by (cases "sx_collect sdf temp outputv inputv")
  let ?b0 = "\<lparr>sb_alg = [], sb_symb_loc = [], sb_refcount = replicate (length nodes) 0,
               sb_curr_oind = sx_first_output outputv 0, sb_curr_nz = 0\<rparr> :: 'a sbuild"
  from assms c obtain b where
    b: "sx_build ndeps d0 G (mx_number nodes temp1) outputv nodes ?b0 = Inr b"
    by (auto simp: sx_init_def Let_def split: sum.splits)
  let ?a0 = "\<lparr>sa_refcount = sb_refcount b, sa_place = replicate (length nodes) 0,
               sa_unused = [], sa_worksize = 0\<rparr>"
  from assms c b obtain alg1 a1 where
    l: "sx_allocate ndeps True (sb_alg b) ?a0 = Inr (alg1, a1)"
    by (auto simp: sx_init_def Let_def split: sum.splits)
  with assms c b have w1: "j_worksize q1 = sa_worksize a1"
    by (auto simp: sx_init_def Let_def split: prod.splits)
  from sx_allocate_sim [of ?a0 ?a0 ndeps "sb_alg b"] l
  obtain alg0 a0 where n: "sx_allocate ndeps False (sb_alg b) ?a0 = Inr (alg0, a0)"
    and w: "sa_worksize a1 \<le> sa_worksize a0"
    by auto
  have "\<exists>q0. sx_init sdf ndeps d0 G False temp inputv outputv = Inr q0
              \<and> j_worksize q0 = sa_worksize a0"
    using c b n by (simp add: sx_init_def Let_def split: prod.splits)
  with w w1 show ?thesis by auto
qed

text \<open>
  Claim C6.  Whenever \<open>init\<close> succeeds with live variables it succeeds without
  them on the same inputs and outputs, and the work vector it sets up with live
  variables is no longer than the one without, in the matrix layer and in the scalar
  layer.
\<close>

theorem live_variables_worksize:
  "(mx_init sdf G True temp inputv outputv = Inr r1 \<longrightarrow>
      (\<exists>r0. mx_init sdf G False temp inputv outputv = Inr r0 \<and> i_worksize r1 \<le> i_worksize r0))
   \<and> (sx_init sdf' ndeps d0 G' True temp' inputv' outputv' = Inr q1 \<longrightarrow>
      (\<exists>q0. sx_init sdf' ndeps d0 G' False temp' inputv' outputv' = Inr q0
             \<and> j_worksize q1 \<le> j_worksize q0))"
  using mx_init_worksize [of sdf G temp inputv outputv r1]
        sx_init_worksize [of sdf' ndeps d0 G' temp' inputv' outputv' q1]
  by blast

theorem live_variables_worksize_witness:
  "\<not> isl (mx_init ex_sdf ex_graph True temps0 [0] [2])
   \<and> \<not> isl (mx_init ex_sdf ex_graph False temps0 [0] [2])
   \<and> i_worksize (projr (mx_init ex_sdf ex_graph True temps0 [0] [2])) = 2
   \<and> i_worksize (projr (mx_init ex_sdf ex_graph False temps0 [0] [2])) = 3
   \<and> \<not> isl (sx_init ex_sdf ex_ndeps 0 ex_sgraph True temps0 [[0]] [[2]])
   \<and> \<not> isl (sx_init ex_sdf ex_ndeps 0 ex_sgraph False temps0 [[0]] [[2]])
   \<and> j_worksize (projr (sx_init ex_sdf ex_ndeps 0 ex_sgraph True temps0 [[0]] [[2]])) = 1
   \<and> j_worksize (projr (sx_init ex_sdf ex_ndeps 0 ex_sgraph False temps0 [[0]] [[2]])) = 3
   \<and> i_worksize (projr (mx_init ex_sdf ex_graph True temps0 [0] [2]))
       \<le> i_worksize (projr (mx_init ex_sdf ex_graph False temps0 [0] [2]))
   \<and> j_worksize (projr (sx_init ex_sdf ex_ndeps 0 ex_sgraph True temps0 [[0]] [[2]]))
       \<le> j_worksize (projr (sx_init ex_sdf ex_ndeps 0 ex_sgraph False temps0 [[0]] [[2]]))"
proof -
  let ?m1 = "mx_init ex_sdf ex_graph True temps0 [0] [2]"
  let ?m0 = "mx_init ex_sdf ex_graph False temps0 [0] [2]"
  let ?s1 = "sx_init ex_sdf ex_ndeps (0::nat) ex_sgraph True temps0 [[0]] [[2]]"
  let ?s0 = "sx_init ex_sdf ex_ndeps (0::nat) ex_sgraph False temps0 [[0]] [[2]]"
  have n: "\<not> isl ?m1" "\<not> isl ?m0" "\<not> isl ?s1" "\<not> isl ?s0"
    by code_simp+
  have v: "i_worksize (projr ?m1) = 2" "i_worksize (projr ?m0) = 3"
    "j_worksize (projr ?s1) = 1" "j_worksize (projr ?s0) = 3"
    by code_simp+
  from n have e: "?m1 = Inr (projr ?m1)" "?s1 = Inr (projr ?s1)"
    by simp_all
  from live_variables_worksize [of ex_sdf ex_graph temps0 "[0]" "[2]" "projr ?m1"
         ex_sdf ex_ndeps 0 ex_sgraph temps0 "[[0]]" "[[2]]" "projr ?s1"] e
  have "\<exists>r0. ?m0 = Inr r0 \<and> i_worksize (projr ?m1) \<le> i_worksize r0"
    "\<exists>q0. ?s0 = Inr q0 \<and> j_worksize (projr ?s1) \<le> j_worksize q0"
    by blast+
  then have "i_worksize (projr ?m1) \<le> i_worksize (projr ?m0)"
    "j_worksize (projr ?s1) \<le> j_worksize (projr ?s0)"
    by auto
  with n v show ?thesis by blast
qed

subsection \<open>Numeric evaluation and free variables\<close>

lemma mx_eval_step_other:
  "ae_op it \<noteq> OP_OUTPUT \<Longrightarrow> w_output (mx_eval_step env it s) = w_output s"
  by (simp add: mx_eval_step_def)

lemma mx_eval_step_output:
  "ae_op it = OP_OUTPUT \<Longrightarrow>
   w_output (mx_eval_step env it s)
     = (w_output s)[nat (hd (ae_res it)) :=
          d_get env (w_work s ! nat (hd (ae_arg it))) (w_output s ! nat (hd (ae_res it)))]"
  by (simp add: mx_eval_step_def)

lemma mx_outs_snoc:
  "mx_outs (alg @ [it])
     = (if ae_op it = OP_OUTPUT then mx_outs alg @ [nat (hd (ae_res it))] else mx_outs alg)"
  by (simp add: mx_outs_def)

lemma mx_run_outputs:
  "distinct (mx_outs alg) \<Longrightarrow> \<forall>k \<in> set (mx_outs alg). k < length (w_output s) \<Longrightarrow>
   length (w_output (fold (mx_eval_step env) alg s)) = length (w_output s)
   \<and> (\<forall>k. k \<notin> set (mx_outs alg) \<longrightarrow>
         w_output (fold (mx_eval_step env) alg s) ! k = w_output s ! k)
   \<and> (\<forall>k \<in> set (mx_outs alg). \<exists>i < length alg.
         ae_op (alg ! i) = OP_OUTPUT \<and> nat (hd (ae_res (alg ! i))) = k
         \<and> w_output (fold (mx_eval_step env) alg s) ! k
             = d_get env (w_work (fold (mx_eval_step env) (take i alg) s)
                            ! nat (hd (ae_arg (alg ! i))))
                 (w_output s ! k))"
proof (induction alg rule: rev_induct)
  case Nil
  show ?case by (simp add: mx_outs_def)
next
  case (snoc it alg)
  let ?run = "\<lambda>alg. fold (mx_eval_step env) alg s"
  let ?W = "\<lambda>alg k i. i < length alg \<and> ae_op (alg ! i) = OP_OUTPUT
         \<and> nat (hd (ae_res (alg ! i))) = k
         \<and> w_output (?run alg) ! k
             = d_get env (w_work (?run (take i alg)) ! nat (hd (ae_arg (alg ! i))))
                 (w_output s ! k)"
  from snoc.prems have d: "distinct (mx_outs alg)"
    and r: "\<forall>k \<in> set (mx_outs alg). k < length (w_output s)"
    by (simp_all add: mx_outs_snoc split: if_splits)
  note ih = snoc.IH [OF d r]
  from ih have len: "length (w_output (?run alg)) = length (w_output s)" by blast
  from ih have frame: "\<And>k. k \<notin> set (mx_outs alg) \<Longrightarrow> w_output (?run alg) ! k = w_output s ! k"
    by blast
  from ih have wr: "\<And>k. k \<in> set (mx_outs alg) \<Longrightarrow> \<exists>i. ?W alg k i"
    by blast
  have run: "?run (alg @ [it]) = mx_eval_step env it (?run alg)" by simp
  show ?case
  proof (cases "ae_op it = OP_OUTPUT")
    case False
    then have o: "mx_outs (alg @ [it]) = mx_outs alg" by (simp add: mx_outs_snoc)
    have w: "w_output (?run (alg @ [it])) = w_output (?run alg)"
      unfolding run using False by (rule mx_eval_step_other)
    have "\<exists>i. ?W (alg @ [it]) k i" if "k \<in> set (mx_outs alg)" for k
    proof -
      from wr [OF that] obtain i where i: "?W alg k i" by blast
      then have "i < length alg" by blast
      then have "(alg @ [it]) ! i = alg ! i" "take i (alg @ [it]) = take i alg"
        "i < length (alg @ [it])"
        by (simp_all add: nth_append)
      with i w have "?W (alg @ [it]) k i" by simp
      then show ?thesis by blast
    qed
    with len frame show ?thesis
      unfolding o w by blast
  next
    case True
    let ?m = "nat (hd (ae_res it))"
    from True have o: "mx_outs (alg @ [it]) = mx_outs alg @ [?m]" by (simp add: mx_outs_snoc)
    from snoc.prems o have m: "?m \<notin> set (mx_outs alg)" "?m < length (w_output s)"
      by simp_all
    have w: "w_output (?run (alg @ [it]))
        = (w_output (?run alg))[?m := d_get env (w_work (?run alg) ! nat (hd (ae_arg it)))
                                        (w_output (?run alg) ! ?m)]"
      unfolding run using True by (rule mx_eval_step_output)
    have l: "length (w_output (?run (alg @ [it]))) = length (w_output s)"
      unfolding w using len by simp
    have f: "w_output (?run (alg @ [it])) ! k = w_output s ! k"
      if "k \<notin> set (mx_outs (alg @ [it]))" for k
    proof -
      from that o have "k \<noteq> ?m" "k \<notin> set (mx_outs alg)" by simp_all
      with frame [of k] show ?thesis unfolding w by simp
    qed
    have "\<exists>i. ?W (alg @ [it]) k i" if "k \<in> set (mx_outs (alg @ [it]))" for k
    proof (cases "k = ?m")
      case True
      have "w_output (?run (alg @ [it])) ! ?m
          = d_get env (w_work (?run alg) ! nat (hd (ae_arg it))) (w_output s ! ?m)"
        unfolding w using m len frame [OF m(1)] by simp
      with True \<open>ae_op it = OP_OUTPUT\<close> have "?W (alg @ [it]) k (length alg)"
        by simp
      then show ?thesis by blast
    next
      case False
      with that o have "k \<in> set (mx_outs alg)" by simp
      from wr [OF this] obtain i where i: "?W alg k i" by blast
      then have "i < length alg" by blast
      then have e: "(alg @ [it]) ! i = alg ! i" "take i (alg @ [it]) = take i alg"
        "i < length (alg @ [it])"
        by (simp_all add: nth_append)
      from False have "w_output (?run (alg @ [it])) ! k = w_output (?run alg) ! k"
        unfolding w by simp
      with i e have "?W (alg @ [it]) k i" by simp
      then show ?thesis by blast
    qed
    with l f show ?thesis by blast
  qed
qed

lemma mx_collect_outputs:
  "length (filter (\<lambda>nd. nd = None)
     (snd (fold (\<lambda>ov (t, ns). case sdf t ov of (t', new) \<Rightarrow> (t', ns @ map Some new @ [None])) ovs (t, ns))))
   = length (filter (\<lambda>nd. nd = None) ns) + length ovs"
proof (induction ovs arbitrary: t ns)
  case Nil
  show ?case by simp
next
  case (Cons ov ovs)
  obtain t' new where s: "sdf t ov = (t', new)" by (cases "sdf t ov")
  have f: "filter (\<lambda>nd. nd = None) (map Some new) = []"
    by (induction new) simp_all
  from Cons.IH [of t' "ns @ map Some new @ [None]"] show ?case
    by (simp add: s f)
qed

lemma mx_collect_marks:
  assumes "marks_listed sdf"
  shows "(\<forall>x. fst (fold (\<lambda>ov (t, ns). case sdf t ov of (t', new) \<Rightarrow> (t', ns @ map Some new @ [None])) ovs (t, ns)) x \<noteq> 0
            \<longrightarrow> t x \<noteq> 0 \<or> Some x \<in> set (snd (fold (\<lambda>ov (t, ns). case sdf t ov of (t', new) \<Rightarrow> (t', ns @ map Some new @ [None])) ovs (t, ns))))
       \<and> set ns \<subseteq> set (snd (fold (\<lambda>ov (t, ns). case sdf t ov of (t', new) \<Rightarrow> (t', ns @ map Some new @ [None])) ovs (t, ns)))"
proof (induction ovs arbitrary: t ns)
  case Nil
  show ?case by simp
next
  case (Cons ov ovs)
  obtain t' new where s: "sdf t ov = (t', new)" by (cases "sdf t ov")
  from assms s have m: "\<And>x. t' x \<noteq> 0 \<Longrightarrow> t x \<noteq> 0 \<or> x \<in> set new"
    unfolding marks_listed_def by (metis fst_conv snd_conv)
  from Cons.IH [of t' "ns @ map Some new @ [None]"] m show ?case
    by (simp add: s) blast
qed

lemma mx_collect_inputs:
  "set ns \<subseteq> set (fold (\<lambda>x ns. if temp1 x = 0 then ns @ [Some x] else ns) xs ns)
   \<and> (\<forall>x \<in> set xs. temp1 x = 0 \<longrightarrow>
          Some x \<in> set (fold (\<lambda>x ns. if temp1 x = 0 then ns @ [Some x] else ns) xs ns))
   \<and> filter (\<lambda>nd. nd = None) (fold (\<lambda>x ns. if temp1 x = 0 then ns @ [Some x] else ns) xs ns)
       = filter (\<lambda>nd. nd = None) ns"
proof (induction xs arbitrary: ns)
  case Nil
  show ?case by simp
next
  case (Cons x xs)
  from Cons.IH [of "if temp1 x = 0 then ns @ [Some x] else ns"] show ?case
    by auto
qed

lemma mx_collect_nodes:
  assumes c: "mx_collect sdf temp outputv inputv = (temp1, nodes)"
  shows "length (filter (\<lambda>nd. nd = None) nodes) = length outputv"
    and "marks_listed sdf \<Longrightarrow> \<forall>x \<in> set inputv. temp x = 0 \<Longrightarrow> \<forall>x \<in> set inputv. Some x \<in> set nodes"
proof -
  let ?F = "fold (\<lambda>ov (t, ns). case sdf t ov of (t', new) \<Rightarrow> (t', ns @ map Some new @ [None])) outputv (temp, [])"
  obtain t1 n1 where f: "?F = (t1, n1)" by (cases ?F)
  from c f have e: "temp1 = t1"
    "nodes = fold (\<lambda>x ns. if t1 x = 0 then ns @ [Some x] else ns) inputv n1"
    by (auto simp: mx_collect_def)
  from mx_collect_outputs [of sdf outputv temp "[]"] f
  have "length (filter (\<lambda>nd. nd = None) n1) = length outputv" by simp
  with mx_collect_inputs [of n1 t1 inputv] e
  show "length (filter (\<lambda>nd. nd = None) nodes) = length outputv" by simp
  assume m: "marks_listed sdf" and z: "\<forall>x \<in> set inputv. temp x = 0"
  from mx_collect_marks [OF m, of outputv temp "[]"] f
  have k: "\<And>x. t1 x \<noteq> 0 \<Longrightarrow> temp x \<noteq> 0 \<or> Some x \<in> set n1" by simp
  show "\<forall>x \<in> set inputv. Some x \<in> set nodes"
  proof
    fix x assume x: "x \<in> set inputv"
    show "Some x \<in> set nodes"
    proof (cases "t1 x = 0")
      case True
      with mx_collect_inputs [of n1 t1 inputv] x e show ?thesis by blast
    next
      case False
      with k [of x] z x have "Some x \<in> set n1" by auto
      with mx_collect_inputs [of n1 t1 inputv] e show ?thesis by blast
    qed
  qed
qed

lemma filter_update_same:
  "i < length xs \<Longrightarrow> \<not> P (xs ! i) \<Longrightarrow> \<not> P v \<Longrightarrow> filter P (xs[i := v]) = filter P xs"
proof (induction xs arbitrary: i)
  case Nil
  then show ?case by simp
next
  case (Cons x xs)
  then show ?case by (cases i) simp_all
qed

lemma mx_out_res_snoc:
  "mx_out_res (alg @ [it])
     = (if ae_op it = OP_OUTPUT then mx_out_res alg @ [ae_res it] else mx_out_res alg)"
  by (simp add: mx_out_res_def)

lemma mx_out_res_member:
  "i < length alg \<Longrightarrow> ae_op (alg ! i) = OP_OUTPUT \<Longrightarrow> ae_res (alg ! i) \<in> set (mx_out_res alg)"
  by (auto simp: mx_out_res_def intro!: image_eqI [where x = "alg ! i"])

lemma mx_out_res_update:
  assumes "mx_out_res alg = map (\<lambda>k. [int k]) [0..<n]"
    and "oind < length (ae_res (alg ! pind))" "ae_res (alg ! pind) ! oind < 0"
  shows "mx_out_res (alg[pind := (alg ! pind)\<lparr>ae_res := r\<rparr>]) = mx_out_res alg"
proof (cases "pind < length alg")
  case False
  then show ?thesis by (simp add: not_less list_update_beyond)
next
  case True
  have "ae_op (alg ! pind) \<noteq> OP_OUTPUT"
  proof
    assume "ae_op (alg ! pind) = OP_OUTPUT"
    from mx_out_res_member [OF True this] assms(1)
    obtain k where "ae_res (alg ! pind) = [int k]" by auto
    with assms(2,3) show False by simp
  qed
  with True show ?thesis
    unfolding mx_out_res_def
    by (simp add: filter_update_same)
qed

lemma build_inv_emit:
  assumes "build_inv outputv b" "ae_op ae \<noteq> OP_OUTPUT"
  shows "build_inv outputv (mx_emit ae b)"
  using assms
  by (auto simp: build_inv_def mx_emit_def mx_out_res_snoc nth_append)

lemma build_inv_emit_param:
  assumes "build_inv outputv b" "ae_op ae = OP_PARAMETER"
  shows "build_inv outputv (mx_emit ae (b\<lparr>b_symb_loc := b_symb_loc b @ [(length (b_alg b), n)]\<rparr>))"
  using assms
  by (auto simp: build_inv_def mx_emit_def mx_out_res_snoc nth_append)

lemma build_inv_emit_output:
  assumes "build_inv outputv b" "ae_op ae = OP_OUTPUT" "ae_res ae = [int (b_curr_oind b)]"
    "b_curr_oind b < length outputv"
  shows "build_inv outputv (mx_emit ae (b\<lparr>b_curr_oind := b_curr_oind b + 1\<rparr>))"
  using assms
  by (auto simp: build_inv_def mx_emit_def mx_out_res_snoc nth_append)

lemma mx_build_step_inv:
  assumes i: "build_inv outputv b" and s: "mx_build_step G outputv nd b = Inr b'"
  shows "build_inv outputv b' \<and> b_curr_oind b + (if nd = None then 1 else 0) \<le> b_curr_oind b'"
proof -
  let ?opn = "case nd of None \<Rightarrow> OP_OUTPUT | Some n \<Rightarrow> nd_op (G n)"
  consider (out) "?opn = OP_OUTPUT" | (par) "?opn = OP_PARAMETER"
    | (neg) "?opn = OP_NEGATIVE"
    | (oth) "?opn \<noteq> OP_OUTPUT" "?opn \<noteq> OP_PARAMETER" "?opn \<noteq> OP_NEGATIVE"
    by blast
  then show ?thesis
  proof cases
    case out
    with s have lt: "b_curr_oind b < length outputv"
      by (simp add: mx_build_step_def Let_def split: if_splits)
    let ?ae = "\<lparr>ae_op = OP_OUTPUT, ae_data = nd, ae_arg = [b_temp b (outputv ! b_curr_oind b)],
                 ae_res = [int (b_curr_oind b)]\<rparr>"
    from s out lt have e: "b' = mx_emit ?ae (b\<lparr>b_curr_oind := b_curr_oind b + 1\<rparr>)"
      by (simp add: mx_build_step_def Let_def)
    have "build_inv outputv b'"
      unfolding e by (rule build_inv_emit_output [OF i _ _ lt]) simp_all
    moreover have "b_curr_oind b' = b_curr_oind b + 1"
      unfolding e by (simp add: mx_emit_def)
    ultimately show ?thesis by simp
  next
    case par
    then obtain n where n: "nd = Some n" by (cases nd) simp_all
    from s par have "\<exists>ae. b' = mx_emit ae (b\<lparr>b_symb_loc := b_symb_loc b @ [(length (b_alg b), the nd)]\<rparr>)
        \<and> ae_op ae = OP_PARAMETER"
      by (simp add: mx_build_step_def Let_def split: if_splits)
         ((rule exI, rule conjI, erule sym, simp)+)
    then obtain ae where a: "ae_op ae = OP_PARAMETER"
      and e: "b' = mx_emit ae (b\<lparr>b_symb_loc := b_symb_loc b @ [(length (b_alg b), the nd)]\<rparr>)"
      by blast
    have "build_inv outputv b'"
      unfolding e by (rule build_inv_emit_param [OF i a])
    moreover have "b_curr_oind b' = b_curr_oind b"
      unfolding e by (simp add: mx_emit_def)
    ultimately show ?thesis using n by simp
  next
    case oth
    then obtain n where n: "nd = Some n" by (cases nd) simp_all
    from s oth have "\<exists>ae. b' = mx_emit ae b \<and> ae_op ae \<noteq> OP_OUTPUT"
      by (simp add: mx_build_step_def Let_def split: if_splits)
         ((rule exI, rule conjI, erule sym, simp)+)
    then obtain ae where a: "ae_op ae \<noteq> OP_OUTPUT" and e: "b' = mx_emit ae b"
      by blast
    have "build_inv outputv b'"
      unfolding e by (rule build_inv_emit [OF i a])
    moreover have "b_curr_oind b' = b_curr_oind b"
      unfolding e by (simp add: mx_emit_def)
    ultimately show ?thesis using n by simp
  next
    case neg
    then obtain n where n: "nd = Some n" by (cases nd) simp_all
    let ?oind = "nd_fout (G (the nd))"
    let ?pind = "nat (b_place_in_alg b ! nat (b_temp b (hd (nd_dep (G (the nd))))))"
    let ?parent = "b_alg b ! ?pind"
    from s neg have lt: "?oind < length (ae_res ?parent)"
      by (simp add: mx_build_step_def Let_def split: if_splits)
    show ?thesis
    proof (cases "ae_res ?parent ! ?oind < 0")
      case True
      let ?alg = "(b_alg b)[?pind := ?parent\<lparr>ae_res := (ae_res ?parent)[?oind := b_temp b (the nd)]\<rparr>]"
      from s neg lt True
      have e: "b' = b\<lparr>b_alg := ?alg, b_place_in_alg := b_place_in_alg b @ [- 1]\<rparr>"
        by (simp add: mx_build_step_def Let_def)
      from i have o: "mx_out_res (b_alg b) = map (\<lambda>k. [int k]) [0..<b_curr_oind b]"
        by (simp add: build_inv_def)
      have r: "mx_out_res ?alg = mx_out_res (b_alg b)"
        by (rule mx_out_res_update [OF o lt True])
      have p: "ae_op (?alg ! pos) = ae_op (b_alg b ! pos)" if "pos < length (b_alg b)" for pos
        using that by (cases "pos = ?pind") simp_all
      from i r p have "build_inv outputv b'"
        unfolding e by (auto simp: build_inv_def)
      moreover have "b_curr_oind b' = b_curr_oind b"
        unfolding e by simp
      ultimately show ?thesis using n by simp
    next
      case False
      from s neg lt False
      have e: "b' = b\<lparr>b_temp := (b_temp b)(the nd := ae_res ?parent ! ?oind),
                      b_place_in_alg := b_place_in_alg b @ [- 1]\<rparr>"
        by (simp add: mx_build_step_def Let_def)
      from i have "build_inv outputv b'"
        unfolding e by (simp add: build_inv_def)
      moreover have "b_curr_oind b' = b_curr_oind b"
        unfolding e by simp
      ultimately show ?thesis using n by simp
    qed
  qed
qed

lemma mx_build_inv:
  "build_inv outputv b \<Longrightarrow> mx_build G outputv nodes b = Inr b' \<Longrightarrow>
   build_inv outputv b'
   \<and> b_curr_oind b + length (filter (\<lambda>nd. nd = None) nodes) \<le> b_curr_oind b'"
proof (induction nodes arbitrary: b)
  case Nil
  then show ?case by simp
next
  case (Cons nd rest)
  from Cons.prems(2) obtain b1 where s: "mx_build_step G outputv nd b = Inr b1"
    and r: "mx_build G outputv rest b1 = Inr b'"
    by (auto split: sum.splits)
  from mx_build_step_inv [OF Cons.prems(1) s]
  have i: "build_inv outputv b1" and c: "b_curr_oind b + (if nd = None then 1 else 0) \<le> b_curr_oind b1"
    by simp_all
  from Cons.IH [OF i r] c show ?case by auto
qed

lemma mx_alloc_res_keeps:
  "ae_op (fst (mx_alloc_res G live c s)) = ae_op (fst s)"
  by (cases s) (simp add: mx_alloc_res_def Let_def)

lemma mx_alloc_ress_keeps:
  "ae_op (fst (fold (mx_alloc_res G live) cs s)) = ae_op (fst s)"
  by (induction cs arbitrary: s) (simp_all add: mx_alloc_res_keeps)

lemma mx_alloc_step_keeps:
  "ae_op (fst (mx_alloc_step G live nodes it a)) = ae_op it
   \<and> (ae_op it = OP_OUTPUT \<longrightarrow> ae_res (fst (mx_alloc_step G live nodes it a)) = ae_res it)"
  by (simp add: mx_alloc_step_def Let_def mx_free_args_keeps mx_free_arg_keeps mx_alloc_ress_keeps)

lemma mx_alloc_keeps:
  "map ae_op (fst (mx_alloc G live nodes alg a)) = map ae_op alg
   \<and> mx_out_res (fst (mx_alloc G live nodes alg a)) = mx_out_res alg"
proof (induction alg arbitrary: a)
  case Nil
  show ?case by simp
next
  case (Cons it rest)
  obtain it' a' where s: "mx_alloc_step G live nodes it a = (it', a')"
    by (cases "mx_alloc_step G live nodes it a")
  obtain rest' a'' where r: "mx_alloc G live nodes rest a' = (rest', a'')"
    by (cases "mx_alloc G live nodes rest a'")
  from mx_alloc_step_keeps [of G live nodes it a] s
  have k: "ae_op it' = ae_op it" "ae_op it = OP_OUTPUT \<longrightarrow> ae_res it' = ae_res it"
    by simp_all
  from Cons.IH [of a'] r
  have ih: "map ae_op rest' = map ae_op rest" "mx_out_res rest' = mx_out_res rest"
    by simp_all
  have "mx_out_res (it' # rest') = mx_out_res (it # rest)"
    using k ih by (simp add: mx_out_res_def)
  with k ih show ?case by (simp add: s r)
qed

lemma mx_reset_listed:
  "Some x \<in> set nodes \<Longrightarrow> mx_reset nodes t x = 0"
  unfolding mx_reset_def
proof (induction nodes arbitrary: t rule: rev_induct)
  case Nil
  then show ?case by simp
next
  case (snoc nd nodes)
  then show ?case by (cases nd) auto
qed

lemma mx_mark_symb_value:
  "mx_mark_symb sl t x = t x \<or> (\<exists>pos. (pos, x) \<in> set sl \<and> mx_mark_symb sl t x = int pos + 1)"
  unfolding mx_mark_symb_def
proof (induction sl arbitrary: t rule: rev_induct)
  case Nil
  show ?case by simp
next
  case (snoc p sl)
  obtain pos n where p: "p = (pos, n)" by (cases p)
  from snoc [of t] show ?case
    by (auto simp: p)
qed

lemma mx_input_step_ok:
  assumes "input_ok inputv (alg, t)" "ind < length inputv"
  shows "input_ok inputv
           (let i = t (inputv ! ind) - 1 in
            if i \<ge> 0
            then (alg[nat i := (alg ! nat i)\<lparr>ae_op := OP_INPUT, ae_arg := [int ind]\<rparr>],
                  t(inputv ! ind := 0))
            else (alg, t))
       \<and> mx_out_res (fst (let i = t (inputv ! ind) - 1 in
            if i \<ge> 0
            then (alg[nat i := (alg ! nat i)\<lparr>ae_op := OP_INPUT, ae_arg := [int ind]\<rparr>],
                  t(inputv ! ind := 0))
            else (alg, t))) = mx_out_res alg"
proof (cases "t (inputv ! ind) - 1 \<ge> 0")
  case False
  with assms show ?thesis by (simp add: Let_def)
next
  case True
  let ?i = "nat (t (inputv ! ind) - 1)"
  let ?alg = "alg[?i := (alg ! ?i)\<lparr>ae_op := OP_INPUT, ae_arg := [int ind]\<rparr>]"
  from assms True have i: "?i < length alg" "ae_op (alg ! ?i) \<noteq> OP_OUTPUT"
    by (simp_all add: input_ok_def)
  have o: "mx_out_res ?alg = mx_out_res alg"
    unfolding mx_out_res_def using i by (simp add: filter_update_same)
  have p: "ae_op (?alg ! j) \<noteq> OP_OUTPUT" if "j < length alg" "ae_op (alg ! j) \<noteq> OP_OUTPUT" for j
    using that by (cases "j = ?i") simp_all
  from assms(1) p have "input_ok inputv (?alg, t(inputv ! ind := 0))"
    by (auto simp: input_ok_def)
  with o True show ?thesis by (simp add: Let_def)
qed

lemma mx_input_instr_fold:
  "input_ok inputv s \<Longrightarrow> \<forall>ind \<in> set inds. ind < length inputv \<Longrightarrow>
   mx_out_res (fst (fold (\<lambda>ind (alg, t).
             let i = t (inputv ! ind) - 1 in
             if i \<ge> 0
             then (alg[nat i := (alg ! nat i)\<lparr>ae_op := OP_INPUT, ae_arg := [int ind]\<rparr>],
                   t(inputv ! ind := 0))
             else (alg, t)) inds s)) = mx_out_res (fst s)"
proof (induction inds arbitrary: s)
  case Nil
  show ?case by simp
next
  case (Cons ind inds)
  obtain alg t where s: "s = (alg, t)" by (cases s)
  from Cons.prems have l: "ind < length inputv" by simp
  from mx_input_step_ok [OF Cons.prems(1) [unfolded s] l]
  show ?case
    using Cons.IH Cons.prems(2) by (simp add: s)
qed

lemma mx_input_instr_outs:
  "input_ok inputv (alg, t) \<Longrightarrow> mx_out_res (fst (mx_input_instr inputv (alg, t))) = mx_out_res alg"
  unfolding mx_input_instr_def
  using mx_input_instr_fold [of inputv "(alg, t)" "[0..<length inputv]"] by simp

lemma mx_outs_res: "mx_outs alg = map (\<lambda>r. nat (hd r)) (mx_out_res alg)"
  by (simp add: mx_outs_def mx_out_res_def)

lemma mx_init_outputs:
  assumes init: "mx_init sdf G live temp inputv outputv = Inr r"
    and m: "marks_listed sdf" and z: "\<forall>x \<in> set inputv. temp x = 0"
  shows "mx_out_res (i_algorithm r) = map (\<lambda>k. [int k]) [0..<length outputv]"
proof -
  obtain temp1 nodes where c: "mx_collect sdf temp outputv inputv = (temp1, nodes)"
    by (cases "mx_collect sdf temp outputv inputv")
  let ?b0 = "\<lparr>b_temp = mx_number nodes temp1, b_alg = [], b_symb_loc = [],
                 b_refcount = replicate (length nodes) 0, b_place_in_alg = [],
                 b_curr_oind = 0\<rparr>"
  from init c obtain b where b: "mx_build G outputv nodes ?b0 = Inr b"
    by (auto simp: mx_init_def Let_def split: sum.splits)
  let ?a0 = "\<lparr>a_refcount = b_refcount b,
              a_place = resize (length nodes) 0 (b_place_in_alg b),
              a_unused_all = (\<lambda>sp. []), a_worksize = 0, a_log = []\<rparr>"
  let ?alg1 = "fst (mx_alloc G live nodes (b_alg b) ?a0)"
  let ?temp3 = "mx_mark_symb (b_symb_loc b) (mx_reset nodes (b_temp b))"
  from init c b have r: "i_algorithm r = fst (mx_input_instr inputv (?alg1, ?temp3))"
    by (auto simp: mx_init_def Let_def split: prod.splits)
  have "build_inv outputv ?b0"
    by (simp add: build_inv_def mx_out_res_def)
  from mx_build_inv [OF this b] mx_collect_nodes(1) [OF c]
  have i: "build_inv outputv b" and "length outputv \<le> b_curr_oind b"
    by simp_all
  then have o: "mx_out_res (b_alg b) = map (\<lambda>k. [int k]) [0..<length outputv]"
    and p: "\<And>pos n. (pos, n) \<in> set (b_symb_loc b) \<Longrightarrow>
              pos < length (b_alg b) \<and> ae_op (b_alg b ! pos) = OP_PARAMETER"
    by (auto simp: build_inv_def)
  from mx_alloc_keeps [of G live nodes "b_alg b" ?a0]
  have k: "map ae_op ?alg1 = map ae_op (b_alg b)" "mx_out_res ?alg1 = mx_out_res (b_alg b)"
    by simp_all
  from k(1) have len: "length ?alg1 = length (b_alg b)"
    by (rule map_eq_imp_length_eq)
  have op: "ae_op (?alg1 ! pos) = ae_op (b_alg b ! pos)" if "pos < length (b_alg b)" for pos
  proof -
    from that len have "ae_op (?alg1 ! pos) = map ae_op ?alg1 ! pos" by simp
    also have "\<dots> = map ae_op (b_alg b) ! pos" by (simp only: k(1))
    also from that have "\<dots> = ae_op (b_alg b ! pos)" by simp
    finally show ?thesis .
  qed
  have "input_ok inputv (?alg1, ?temp3)"
    unfolding input_ok_def
  proof (intro ballI impI)
    fix x assume x: "x \<in> set inputv" and ge: "1 \<le> snd (?alg1, ?temp3) x"
    from mx_collect_nodes(2) [OF c m z] x have "Some x \<in> set nodes" by blast
    then have "mx_reset nodes (b_temp b) x = 0" by (rule mx_reset_listed)
    with mx_mark_symb_value [of "b_symb_loc b" "mx_reset nodes (b_temp b)" x] ge
    obtain pos where pos: "(pos, x) \<in> set (b_symb_loc b)" "?temp3 x = int pos + 1"
      by auto
    from p [OF pos(1)] op [of pos] len pos(2)
    show "nat (snd (?alg1, ?temp3) x - 1) < length (fst (?alg1, ?temp3))
        \<and> ae_op (fst (?alg1, ?temp3) ! nat (snd (?alg1, ?temp3) x - 1)) \<noteq> OP_OUTPUT"
      by simp
  qed
  from mx_input_instr_outs [OF this] r k(2) o show ?thesis by simp
qed

lemma sx_num_step_other:
  "sx_op it \<noteq> OP_OUTPUT \<Longrightarrow> z_output (sx_num_step bi it s) = z_output s"
  by (simp add: sx_num_step_def Let_def split: operation.splits option.splits)

lemma sx_num_step_output:
  "sx_op it = OP_OUTPUT \<Longrightarrow>
   z_output (sx_num_step bi it s)
     = upd2 (z_output s) (nat (sx_i0 it)) (nat (sx_i2 it)) (z_work s ! nat (sx_i1 it))"
  by (simp add: sx_num_step_def Let_def)

lemma sx_outs_snoc:
  "sx_outs (alg @ [it])
     = (if sx_op it = OP_OUTPUT then sx_outs alg @ [(nat (sx_i0 it), nat (sx_i2 it))]
        else sx_outs alg)"
  by (simp add: sx_outs_def)

lemma same_shape_upd2: "same_shape (upd2 xss i j v) xss"
  by (cases "i < length xss")
     (simp_all add: same_shape_def upd2_def map_update list_update_same_conv list_update_beyond)

lemma same_shape_len:
  "same_shape xss yss \<Longrightarrow> length xss = length yss"
  "same_shape xss yss \<Longrightarrow> oi < length yss \<Longrightarrow> length (xss ! oi) = length (yss ! oi)"
  unfolding same_shape_def
  apply (rule map_eq_imp_length_eq, assumption)
  apply (metis length_map nth_map)
  done

lemma upd2_nth:
  "oi < length xss \<Longrightarrow> z < length (xss ! oi) \<Longrightarrow>
     upd2 xss oi z v ! oi' ! z' = (if oi' = oi \<and> z' = z then v else xss ! oi' ! z')"
  by (auto simp: upd2_def nth_list_update)

lemma sx_run_outputs:
  "distinct (sx_outs alg) \<Longrightarrow>
   \<forall>oi z. (oi, z) \<in> set (sx_outs alg) \<longrightarrow> oi < length (z_output s) \<and> z < length (z_output s ! oi) \<Longrightarrow>
   same_shape (z_output (fold (sx_num_step bi) alg s)) (z_output s)
   \<and> (\<forall>oi z. (oi, z) \<notin> set (sx_outs alg) \<longrightarrow>
         z_output (fold (sx_num_step bi) alg s) ! oi ! z = z_output s ! oi ! z)
   \<and> (\<forall>oi z. (oi, z) \<in> set (sx_outs alg) \<longrightarrow> (\<exists>i < length alg.
         sx_op (alg ! i) = OP_OUTPUT \<and> nat (sx_i0 (alg ! i)) = oi \<and> nat (sx_i2 (alg ! i)) = z
         \<and> z_output (fold (sx_num_step bi) alg s) ! oi ! z
             = z_work (fold (sx_num_step bi) (take i alg) s) ! nat (sx_i1 (alg ! i))))"
proof (induction alg rule: rev_induct)
  case Nil
  show ?case by (simp add: sx_outs_def same_shape_def)
next
  case (snoc it alg)
  let ?run = "\<lambda>alg. fold (sx_num_step bi) alg s"
  let ?W = "\<lambda>alg oi z i. i < length alg \<and> sx_op (alg ! i) = OP_OUTPUT
         \<and> nat (sx_i0 (alg ! i)) = oi \<and> nat (sx_i2 (alg ! i)) = z
         \<and> z_output (?run alg) ! oi ! z = z_work (?run (take i alg)) ! nat (sx_i1 (alg ! i))"
  from snoc.prems have d: "distinct (sx_outs alg)"
    and r: "\<forall>oi z. (oi, z) \<in> set (sx_outs alg) \<longrightarrow> oi < length (z_output s) \<and> z < length (z_output s ! oi)"
    by (auto simp: sx_outs_snoc split: if_splits)
  note ih = snoc.IH [OF d r]
  from ih have sh: "same_shape (z_output (?run alg)) (z_output s)" by blast
  from ih have frame: "\<And>oi z. (oi, z) \<notin> set (sx_outs alg) \<Longrightarrow>
      z_output (?run alg) ! oi ! z = z_output s ! oi ! z"
    by blast
  from ih have wr: "\<And>oi z. (oi, z) \<in> set (sx_outs alg) \<Longrightarrow> \<exists>i. ?W alg oi z i"
    by blast
  have run: "?run (alg @ [it]) = sx_num_step bi it (?run alg)" by simp
  show ?case
  proof (cases "sx_op it = OP_OUTPUT")
    case False
    then have oi: "sx_outs (alg @ [it]) = sx_outs alg" by (simp add: sx_outs_snoc)
    have w: "z_output (?run (alg @ [it])) = z_output (?run alg)"
      unfolding run using False by (rule sx_num_step_other)
    have "\<exists>i. ?W (alg @ [it]) oi z i" if "(oi, z) \<in> set (sx_outs alg)" for oi z
    proof -
      from wr [OF that] obtain i where i: "?W alg oi z i" by blast
      then have "i < length alg" by blast
      then have "(alg @ [it]) ! i = alg ! i" "take i (alg @ [it]) = take i alg"
        "i < length (alg @ [it])"
        by (simp_all add: nth_append)
      with i w have "?W (alg @ [it]) oi z i" by simp
      then show ?thesis by blast
    qed
    with sh frame show ?thesis
      unfolding oi w by blast
  next
    case True
    let ?oi = "nat (sx_i0 it)"
    let ?z = "nat (sx_i2 it)"
    from True have oi: "sx_outs (alg @ [it]) = sx_outs alg @ [(?oi, ?z)]"
      by (simp add: sx_outs_snoc)
    from snoc.prems oi have m: "(?oi, ?z) \<notin> set (sx_outs alg)"
      "?oi < length (z_output s)" "?z < length (z_output s ! ?oi)"
      by simp_all
    from m same_shape_len [OF sh] have m': "?oi < length (z_output (?run alg))"
      "?z < length (z_output (?run alg) ! ?oi)"
      by simp_all
    have w: "z_output (?run (alg @ [it]))
        = upd2 (z_output (?run alg)) ?oi ?z (z_work (?run alg) ! nat (sx_i1 it))"
      unfolding run using True by (rule sx_num_step_output)
    have l: "same_shape (z_output (?run (alg @ [it]))) (z_output s)"
      unfolding w using sh same_shape_upd2 [of "z_output (?run alg)"]
      by (simp add: same_shape_def)
    have f: "z_output (?run (alg @ [it])) ! p ! q = z_output s ! p ! q"
      if "(p, q) \<notin> set (sx_outs (alg @ [it]))" for p q
    proof -
      from that oi have "(p, q) \<noteq> (?oi, ?z)" "(p, q) \<notin> set (sx_outs alg)" by simp_all
      with frame [of p q] show ?thesis unfolding w upd2_nth [OF m'] by auto
    qed
    have "\<exists>i. ?W (alg @ [it]) p q i" if "(p, q) \<in> set (sx_outs (alg @ [it]))" for p q
    proof (cases "(p, q) = (?oi, ?z)")
      case True
      have "z_output (?run (alg @ [it])) ! ?oi ! ?z = z_work (?run alg) ! nat (sx_i1 it)"
        unfolding w upd2_nth [OF m'] by simp
      with True \<open>sx_op it = OP_OUTPUT\<close> have "?W (alg @ [it]) p q (length alg)"
        by simp
      then show ?thesis by blast
    next
      case False
      with that oi have "(p, q) \<in> set (sx_outs alg)" by auto
      from wr [OF this] obtain i where i: "?W alg p q i" by blast
      then have "i < length alg" by blast
      then have e: "(alg @ [it]) ! i = alg ! i" "take i (alg @ [it]) = take i alg"
        "i < length (alg @ [it])"
        by (simp_all add: nth_append)
      from False have "z_output (?run (alg @ [it])) ! p ! q = z_output (?run alg) ! p ! q"
        unfolding w upd2_nth [OF m'] by auto
      with i e have "?W (alg @ [it]) p q i" by simp
      then show ?thesis by blast
    qed
    with l f show ?thesis by blast
  qed
qed

lemma sx_pairs_set:
  "set (sx_pairs outputv) = {(oi, z). oi < length outputv \<and> z < length (outputv ! oi)}"
  by (auto simp: sx_pairs_def)

lemma pairs_upto_distinct:
  "distinct (concat (map (\<lambda>oind. map (\<lambda>nz. (oind, nz)) [0..<length (outputv ! oind)]) [0..<n]))"
proof (induction n)
  case 0
  show ?case by simp
next
  case (Suc n)
  then show ?case
    by (auto simp: distinct_map inj_on_def)
qed

lemma sx_pairs_distinct: "distinct (sx_pairs outputv)"
  unfolding sx_pairs_def by (rule pairs_upto_distinct)

lemma rest_pairs_next:
  "oind < length outputv \<Longrightarrow> Suc nz < length (outputv ! oind) \<Longrightarrow>
     rest_pairs outputv oind nz = (oind, nz) # rest_pairs outputv oind (Suc nz)"
  by (simp add: rest_pairs_def upt_conv_Cons)

lemma sx_skip_empty_pairs:
  "xs = drop k outputv \<Longrightarrow> k \<le> length outputv \<Longrightarrow>
   concat (map (\<lambda>j. map (\<lambda>z. (j, z)) [0..<length (outputv ! j)]) [k..<length outputv])
     = rest_pairs outputv (sx_skip_empty xs k) 0
   \<and> (sx_skip_empty xs k < length outputv \<longrightarrow> 0 < length (outputv ! sx_skip_empty xs k))"
proof (induction xs arbitrary: k)
  case Nil
  then have "k = length outputv" by simp
  then show ?case by (simp add: rest_pairs_def)
next
  case (Cons x xs)
  from Cons.prems have k: "k < length outputv"
    by (metis drop_all le_neq_implies_less list.distinct(1) order_refl)
  with Cons.prems have x: "x = outputv ! k" and xs: "xs = drop (Suc k) outputv"
    by (metis Cons_nth_drop_Suc list.inject)+
  show ?case
  proof (cases "length x \<noteq> 0")
    case True
    with k x show ?thesis
      by (simp add: rest_pairs_def upt_conv_Cons)
  next
    case False
    from Cons.IH [OF xs] k
    have "concat (map (\<lambda>j. map (\<lambda>z. (j, z)) [0..<length (outputv ! j)]) [Suc k..<length outputv])
        = rest_pairs outputv (sx_skip_empty xs (Suc k)) 0
      \<and> (sx_skip_empty xs (Suc k) < length outputv \<longrightarrow> 0 < length (outputv ! sx_skip_empty xs (Suc k)))"
      by simp
    with False k x show ?thesis
      by (simp add: upt_conv_Cons)
  qed
qed

lemma sx_first_output_pairs:
  "k \<le> length outputv \<Longrightarrow>
   concat (map (\<lambda>j. map (\<lambda>z. (j, z)) [0..<length (outputv ! j)]) [k..<length outputv])
     = rest_pairs outputv (sx_first_output outputv k) 0
   \<and> (sx_first_output outputv k < length outputv \<longrightarrow> 0 < length (outputv ! sx_first_output outputv k))"
  unfolding sx_first_output_def by (rule sx_skip_empty_pairs [OF refl])

lemma rest_pairs_last:
  "oind < length outputv \<Longrightarrow> nz < length (outputv ! oind) \<Longrightarrow> length (outputv ! oind) \<le> Suc nz \<Longrightarrow>
     rest_pairs outputv oind nz = (oind, nz) # rest_pairs outputv (sx_first_output outputv (Suc oind)) 0"
  using sx_first_output_pairs [of "Suc oind" outputv]
  by (simp add: rest_pairs_def upt_conv_Cons)

lemma rest_pairs_start:
  "rest_pairs outputv (sx_first_output outputv 0) 0 = sx_pairs outputv"
  using sx_first_output_pairs [of 0 outputv] by (simp add: sx_pairs_def)

lemma rest_pairs_nonempty:
  "rest_pairs outputv oind nz \<noteq> [] \<Longrightarrow> oind < length outputv"
  by (simp add: rest_pairs_def split: if_splits)

lemma sx_build_step_output:
  assumes s: "sx_build_step ndeps d0 G temp outputv nd b = Inr b'"
    and o: "(case nd of None \<Rightarrow> OP_OUTPUT | Some n \<Rightarrow> sn_op (G n)) = OP_OUTPUT"
  shows "sb_curr_nz b < length (outputv ! sb_curr_oind b)
    \<and> (\<exists>ae. sb_alg b' = sb_alg b @ [ae] \<and> sx_op ae = OP_OUTPUT
          \<and> sx_i0 ae = int (sb_curr_oind b) \<and> sx_i2 ae = int (sb_curr_nz b))
    \<and> sb_symb_loc b' = sb_symb_loc b
    \<and> (if sb_curr_nz b + 1 \<ge> length (outputv ! sb_curr_oind b)
        then sb_curr_nz b' = 0 \<and> sb_curr_oind b' = sx_first_output outputv (sb_curr_oind b + 1)
        else sb_curr_nz b' = sb_curr_nz b + 1 \<and> sb_curr_oind b' = sb_curr_oind b)"
  using s unfolding sx_build_step_def Let_def o
  by (auto split: if_splits sum.splits)

lemma sx_build_step_param:
  assumes s: "sx_build_step ndeps d0 G temp outputv nd b = Inr b'"
    and o: "(case nd of None \<Rightarrow> OP_OUTPUT | Some n \<Rightarrow> sn_op (G n)) = OP_PARAMETER"
  shows "(\<exists>ae. sb_alg b' = sb_alg b @ [ae] \<and> sx_op ae = OP_PARAMETER)
    \<and> sb_symb_loc b' = sb_symb_loc b @ [(length (sb_alg b), the nd)]
    \<and> sb_curr_nz b' = sb_curr_nz b \<and> sb_curr_oind b' = sb_curr_oind b"
  using s unfolding sx_build_step_def Let_def o
  by (auto split: if_splits sum.splits)

lemma sx_build_step_other:
  assumes s: "sx_build_step ndeps d0 G temp outputv nd b = Inr b'"
    and o: "(case nd of None \<Rightarrow> OP_OUTPUT | Some n \<Rightarrow> sn_op (G n)) \<noteq> OP_PARAMETER"
      "(case nd of None \<Rightarrow> OP_OUTPUT | Some n \<Rightarrow> sn_op (G n)) \<noteq> OP_OUTPUT"
  shows "(\<exists>ae. sb_alg b' = sb_alg b @ [ae] \<and> sx_op ae \<noteq> OP_OUTPUT)
    \<and> sb_symb_loc b' = sb_symb_loc b
    \<and> sb_curr_nz b' = sb_curr_nz b \<and> sb_curr_oind b' = sb_curr_oind b"
proof -
  obtain opn where opn: "(case nd of None \<Rightarrow> OP_OUTPUT | Some n \<Rightarrow> sn_op (G n)) = opn"
    by simp
  show ?thesis
    using s o unfolding sx_build_step_def Let_def opn
    by (cases opn) (auto split: if_splits sum.splits)
qed

lemma sx_build_step_inv:
  assumes i: "sbuild_inv outputv b"
    and s: "sx_build_step ndeps d0 G temp outputv nd b = Inr b'"
    and g: "\<forall>n. sn_op (G n) \<noteq> OP_OUTPUT"
    and ne: "nd = None \<longrightarrow> rest_pairs outputv (sb_curr_oind b) (sb_curr_nz b) \<noteq> []"
  shows "sbuild_inv outputv b'
    \<and> length (rest_pairs outputv (sb_curr_oind b') (sb_curr_nz b')) + (if nd = None then 1 else 0)
        = length (rest_pairs outputv (sb_curr_oind b) (sb_curr_nz b))"
proof -
  let ?opn = "case nd of None \<Rightarrow> OP_OUTPUT | Some n \<Rightarrow> sn_op (G n)"
  from i have pr: "sx_outs (sb_alg b) @ rest_pairs outputv (sb_curr_oind b) (sb_curr_nz b)
      = sx_pairs outputv"
    and nf: "sb_curr_oind b < length outputv \<longrightarrow> sb_curr_nz b < length (outputv ! sb_curr_oind b)"
    and sl: "\<forall>pos n. (pos, n) \<in> set (sb_symb_loc b) \<longrightarrow>
               pos < length (sb_alg b) \<and> sx_op (sb_alg b ! pos) = OP_PARAMETER"
    by (auto simp: sbuild_inv_def)
  consider (out) "?opn = OP_OUTPUT" | (par) "?opn = OP_PARAMETER"
    | (oth) "?opn \<noteq> OP_PARAMETER" "?opn \<noteq> OP_OUTPUT"
    by blast
  then show ?thesis
  proof cases
    case out
    with g have n: "nd = None" by (cases nd) simp_all
    with ne have lt: "sb_curr_oind b < length outputv" by (simp add: rest_pairs_nonempty)
    from sx_build_step_output [OF s out] obtain ae where
      nz: "sb_curr_nz b < length (outputv ! sb_curr_oind b)"
      and a: "sb_alg b' = sb_alg b @ [ae]" "sx_op ae = OP_OUTPUT"
        "sx_i0 ae = int (sb_curr_oind b)" "sx_i2 ae = int (sb_curr_nz b)"
      and l: "sb_symb_loc b' = sb_symb_loc b"
      and c: "if sb_curr_nz b + 1 \<ge> length (outputv ! sb_curr_oind b)
        then sb_curr_nz b' = 0 \<and> sb_curr_oind b' = sx_first_output outputv (sb_curr_oind b + 1)
        else sb_curr_nz b' = sb_curr_nz b + 1 \<and> sb_curr_oind b' = sb_curr_oind b"
      by blast
    have o: "sx_outs (sb_alg b') = sx_outs (sb_alg b) @ [(sb_curr_oind b, sb_curr_nz b)]"
      using a by (simp add: sx_outs_snoc)
    have r: "rest_pairs outputv (sb_curr_oind b) (sb_curr_nz b)
        = (sb_curr_oind b, sb_curr_nz b) # rest_pairs outputv (sb_curr_oind b') (sb_curr_nz b')"
      and nf': "sb_curr_oind b' < length outputv \<longrightarrow> sb_curr_nz b' < length (outputv ! sb_curr_oind b')"
    proof -
      show "rest_pairs outputv (sb_curr_oind b) (sb_curr_nz b)
        = (sb_curr_oind b, sb_curr_nz b) # rest_pairs outputv (sb_curr_oind b') (sb_curr_nz b')"
      proof (cases "sb_curr_nz b + 1 \<ge> length (outputv ! sb_curr_oind b)")
        case True
        with c rest_pairs_last [OF lt nz] show ?thesis by simp
      next
        case False
        with c rest_pairs_next [OF lt, of "sb_curr_nz b"] show ?thesis by simp
      qed
      show "sb_curr_oind b' < length outputv \<longrightarrow> sb_curr_nz b' < length (outputv ! sb_curr_oind b')"
      proof (cases "sb_curr_nz b + 1 \<ge> length (outputv ! sb_curr_oind b)")
        case True
        with c sx_first_output_pairs [of "Suc (sb_curr_oind b)" outputv] lt show ?thesis by simp
      next
        case False
        with c show ?thesis by simp
      qed
    qed
    have p: "\<forall>pos n. (pos, n) \<in> set (sb_symb_loc b') \<longrightarrow>
               pos < length (sb_alg b') \<and> sx_op (sb_alg b' ! pos) = OP_PARAMETER"
      using sl unfolding l a(1) by (fastforce simp: nth_append less_Suc_eq)
    from pr o r nf' p have "sbuild_inv outputv b'"
      unfolding sbuild_inv_def by auto
    with r n show ?thesis by simp
  next
    case par
    then obtain n where n: "nd = Some n" by (cases nd) simp_all
    from sx_build_step_param [OF s par] obtain ae where
      a: "sb_alg b' = sb_alg b @ [ae]" "sx_op ae = OP_PARAMETER"
      and l: "sb_symb_loc b' = sb_symb_loc b @ [(length (sb_alg b), the nd)]"
      and c: "sb_curr_nz b' = sb_curr_nz b" "sb_curr_oind b' = sb_curr_oind b"
      by blast
    have o: "sx_outs (sb_alg b') = sx_outs (sb_alg b)"
      using a by (simp add: sx_outs_snoc)
    have p: "\<forall>pos n. (pos, n) \<in> set (sb_symb_loc b') \<longrightarrow>
               pos < length (sb_alg b') \<and> sx_op (sb_alg b' ! pos) = OP_PARAMETER"
      using sl a(2) unfolding l a(1) by (fastforce simp: nth_append less_Suc_eq)
    from pr nf o c p have "sbuild_inv outputv b'"
      unfolding sbuild_inv_def by auto
    with c n show ?thesis by simp
  next
    case oth
    then obtain n where n: "nd = Some n" by (cases nd) simp_all
    from sx_build_step_other [OF s oth] obtain ae where
      a: "sb_alg b' = sb_alg b @ [ae]" "sx_op ae \<noteq> OP_OUTPUT"
      and l: "sb_symb_loc b' = sb_symb_loc b"
      and c: "sb_curr_nz b' = sb_curr_nz b" "sb_curr_oind b' = sb_curr_oind b"
      by blast
    have o: "sx_outs (sb_alg b') = sx_outs (sb_alg b)"
      using a by (simp add: sx_outs_snoc)
    have p: "\<forall>pos n. (pos, n) \<in> set (sb_symb_loc b') \<longrightarrow>
               pos < length (sb_alg b') \<and> sx_op (sb_alg b' ! pos) = OP_PARAMETER"
      using sl unfolding l a(1) by (fastforce simp: nth_append less_Suc_eq)
    from pr nf o c p have "sbuild_inv outputv b'"
      unfolding sbuild_inv_def by auto
    with c n show ?thesis by simp
  qed
qed

lemma sx_build_inv:
  "sbuild_inv outputv b \<Longrightarrow> \<forall>n. sn_op (G n) \<noteq> OP_OUTPUT \<Longrightarrow>
   length (rest_pairs outputv (sb_curr_oind b) (sb_curr_nz b))
     = length (filter (\<lambda>nd. nd = None) nodes) \<Longrightarrow>
   sx_build ndeps d0 G temp outputv nodes b = Inr b' \<Longrightarrow>
   sbuild_inv outputv b' \<and> rest_pairs outputv (sb_curr_oind b') (sb_curr_nz b') = []"
proof (induction nodes arbitrary: b)
  case Nil
  then show ?case by simp
next
  case (Cons nd rest)
  from Cons.prems(4) obtain b1 where s: "sx_build_step ndeps d0 G temp outputv nd b = Inr b1"
    and r: "sx_build ndeps d0 G temp outputv rest b1 = Inr b'"
    by (auto split: sum.splits)
  from Cons.prems(3) have ne: "nd = None \<longrightarrow> rest_pairs outputv (sb_curr_oind b) (sb_curr_nz b) \<noteq> []"
    by auto
  from sx_build_step_inv [OF Cons.prems(1) s Cons.prems(2) ne]
  have i: "sbuild_inv outputv b1"
    and c: "length (rest_pairs outputv (sb_curr_oind b1) (sb_curr_nz b1)) + (if nd = None then 1 else 0)
        = length (rest_pairs outputv (sb_curr_oind b) (sb_curr_nz b))"
    by simp_all
  from c Cons.prems(3) have "length (rest_pairs outputv (sb_curr_oind b1) (sb_curr_nz b1))
     = length (filter (\<lambda>nd. nd = None) rest)"
    by (simp split: if_splits)
  from Cons.IH [OF i Cons.prems(2) this r] show ?case .
qed

lemma fold_fold_concat: "fold (\<lambda>xs. fold f xs) xss s = fold f (concat xss) s"
  by (induction xss arbitrary: s) simp_all

lemma sx_collect_mx:
  "sx_collect sdf temp outputv inputv = mx_collect sdf temp (concat outputv) (concat inputv)"
  by (simp add: sx_collect_def mx_collect_def fold_fold_concat)

lemma sx_pairs_length: "length (sx_pairs outputv) = length (concat outputv)"
proof -
  have "map (\<lambda>oind. length (outputv ! oind)) [0..<length outputv] = map length outputv"
    by (rule nth_equalityI) simp_all
  then show ?thesis
    by (simp add: sx_pairs_def length_concat comp_def)
qed

lemma fold_inv_set:
  "(\<And>x s. x \<in> set xs \<Longrightarrow> P s \<Longrightarrow> P (f x s)) \<Longrightarrow> P s \<Longrightarrow> P (fold f xs s)"
  by (induction xs arbitrary: s) simp_all

lemma sx_save_children_keeps:
  "sx_op (sx_save_children n place it) = sx_op it
   \<and> sx_i0 (sx_save_children n place it) = sx_i0 it
   \<and> (n \<le> 1 \<and> sx_op it = OP_OUTPUT \<longrightarrow> sx_i2 (sx_save_children n place it) = sx_i2 it)"
proof -
  let ?f = "\<lambda>c it. if c = 0 then it\<lparr>sx_i1 := place ! nat (sx_i1 it)\<rparr>
                               else it\<lparr>sx_i2 := place ! nat (sx_i2 it)\<rparr>"
  have a: "sx_op (fold ?f cs it) = sx_op it \<and> sx_i0 (fold ?f cs it) = sx_i0 it" for cs
    by (rule fold_inv_set [where P = "\<lambda>x. sx_op x = sx_op it \<and> sx_i0 x = sx_i0 it"]) simp_all
  have b: "sx_i2 (fold ?f [0..<n] it) = sx_i2 it" if "n \<le> 1"
  proof -
    from that have "n = 0 \<or> n = 1" by auto
    then show ?thesis by auto
  qed
  from a [of "[0..<n]"] b show ?thesis
    by (simp add: sx_save_children_def Let_def)
qed

lemma sx_place_result_keeps:
  "sx_op (fst (sx_place_result live (it, a))) = sx_op it
   \<and> (sx_op it = OP_OUTPUT \<longrightarrow> fst (sx_place_result live (it, a)) = it)"
  by (simp add: sx_place_result_def)

lemma sx_alloc_step_keeps:
  assumes "sx_alloc_step ndeps live it a = Inr (it', a')" "ndeps OP_OUTPUT \<le> 1"
  shows "sx_op it' = sx_op it
     \<and> (sx_op it = OP_OUTPUT \<longrightarrow> sx_i0 it' = sx_i0 it \<and> sx_i2 it' = sx_i2 it)"
proof -
  from assms(1) obtain a1 where f: "sx_free_deps (ndeps (sx_op it)) it a = Inr a1"
    by (auto simp: sx_alloc_step_def split: sum.splits)
  obtain it2 a2 where p: "sx_place_result live (it, a1) = (it2, a2)"
    by (cases "sx_place_result live (it, a1)")
  from assms(1) f p have e: "it' = sx_save_children (ndeps (sx_op it)) (sa_place a2) it2"
    by (auto simp: sx_alloc_step_def)
  from sx_place_result_keeps [of live it a1] p
  have k: "sx_op it2 = sx_op it" "sx_op it = OP_OUTPUT \<longrightarrow> it2 = it"
    by simp_all
  from sx_save_children_keeps [of "ndeps (sx_op it)" "sa_place a2" it2] k assms(2)
  show ?thesis unfolding e by auto
qed

lemma sx_allocate_keeps:
  "sx_allocate ndeps live alg a = Inr (alg1, a1) \<Longrightarrow> ndeps OP_OUTPUT \<le> 1 \<Longrightarrow>
   map sx_op alg1 = map sx_op alg \<and> sx_outs alg1 = sx_outs alg"
proof (induction alg arbitrary: a alg1)
  case Nil
  then show ?case by simp
next
  case (Cons it rest)
  from Cons.prems(1) obtain it' a' rest' where
    s: "sx_alloc_step ndeps live it a = Inr (it', a')"
    and r: "sx_allocate ndeps live rest a' = Inr (rest', a1)"
    and e: "alg1 = it' # rest'"
    by (auto split: sum.splits prod.splits)
  from sx_alloc_step_keeps [OF s Cons.prems(2)]
  have k: "sx_op it' = sx_op it"
    "sx_op it = OP_OUTPUT \<longrightarrow> sx_i0 it' = sx_i0 it \<and> sx_i2 it' = sx_i2 it"
    by simp_all
  from Cons.IH [OF r Cons.prems(2)]
  have ih: "map sx_op rest' = map sx_op rest" "sx_outs rest' = sx_outs rest"
    by simp_all
  have "sx_outs (it' # rest') = sx_outs (it # rest)"
    using k ih by (simp add: sx_outs_def)
  with k ih e show ?case by simp
qed

lemma sx_input_step_ok:
  assumes "sx_input_ok inputv (alg, t)" "ind < length inputv" "nz < length (inputv ! ind)"
  shows "sx_input_ok inputv
           (let itc = inputv ! ind ! nz; i = t itc - 1 in
            if i \<ge> 0
            then (alg[nat i := (alg ! nat i)\<lparr>sx_op := OP_INPUT, sx_i1 := int ind,
                                              sx_i2 := int nz\<rparr>],
                  t(itc := 0))
            else (alg, t))
       \<and> sx_outs (fst (let itc = inputv ! ind ! nz; i = t itc - 1 in
            if i \<ge> 0
            then (alg[nat i := (alg ! nat i)\<lparr>sx_op := OP_INPUT, sx_i1 := int ind,
                                              sx_i2 := int nz\<rparr>],
                  t(itc := 0))
            else (alg, t))) = sx_outs alg"
proof (cases "t (inputv ! ind ! nz) - 1 \<ge> 0")
  case False
  with assms show ?thesis by (simp add: Let_def)
next
  case True
  let ?x = "inputv ! ind ! nz"
  let ?i = "nat (t ?x - 1)"
  let ?alg = "alg[?i := (alg ! ?i)\<lparr>sx_op := OP_INPUT, sx_i1 := int ind, sx_i2 := int nz\<rparr>]"
  from assms(2,3) have x: "?x \<in> set (concat inputv)"
    by (auto intro!: bexI [where x = "inputv ! ind"])
  from assms(1) have all: "\<forall>x \<in> set (concat inputv). 1 \<le> t x \<longrightarrow>
        nat (t x - 1) < length alg \<and> sx_op (alg ! nat (t x - 1)) \<noteq> OP_OUTPUT"
    unfolding sx_input_ok_def fst_conv snd_conv .
  from True have ge: "1 \<le> t ?x" by simp
  from all [rule_format, OF x ge] have i: "?i < length alg" "sx_op (alg ! ?i) \<noteq> OP_OUTPUT"
    by blast+
  have o: "sx_outs ?alg = sx_outs alg"
    unfolding sx_outs_def using i by (simp add: filter_update_same)
  have p: "sx_op (?alg ! j) \<noteq> OP_OUTPUT" if "j < length alg" "sx_op (alg ! j) \<noteq> OP_OUTPUT" for j
    using that by (cases "j = ?i") simp_all
  have "sx_input_ok inputv (?alg, t(?x := 0))"
    unfolding sx_input_ok_def fst_conv snd_conv
  proof (intro ballI impI)
    fix y assume y: "y \<in> set (concat inputv)" and g: "1 \<le> (t(?x := 0)) y"
    then have "y \<noteq> ?x" by auto
    with g have "1 \<le> t y" by simp
    from all [rule_format, OF y this] p [of "nat (t y - 1)"] \<open>y \<noteq> ?x\<close>
    show "nat ((t(?x := 0)) y - 1) < length ?alg
        \<and> sx_op (?alg ! nat ((t(?x := 0)) y - 1)) \<noteq> OP_OUTPUT"
      by simp
  qed
  with o True show ?thesis by (simp add: Let_def)
qed

lemma sx_input_instr_outs:
  assumes "sx_input_ok inputv (alg, t)"
  shows "sx_outs (fst (sx_input_instr inputv (alg, t))) = sx_outs alg"
proof -
  let ?P = "\<lambda>s. sx_input_ok inputv s \<and> sx_outs (fst s) = sx_outs alg"
  let ?g = "\<lambda>ind nz (alg, t).
                    let itc = inputv ! ind ! nz; i = t itc - 1 in
                    if i \<ge> 0
                    then (alg[nat i := (alg ! nat i)\<lparr>sx_op := OP_INPUT, sx_i1 := int ind,
                                                     sx_i2 := int nz\<rparr>],
                          t(itc := 0))
                    else (alg, t)"
  have step: "?P (?g ind nz s)" if "?P s" "ind < length inputv" "nz < length (inputv ! ind)" for ind nz s
  proof -
    obtain al tt where s: "s = (al, tt)" by (cases s)
    from sx_input_step_ok [OF _ that(2,3), of al tt] that(1)
    show ?thesis unfolding s by simp
  qed
  have inner: "?P (fold (?g ind) [0..<length (inputv ! ind)] s)" if "?P s" "ind < length inputv" for ind s
  proof (rule fold_inv_set [where P = ?P])
    fix x s' assume "x \<in> set [0..<length (inputv ! ind)]" and "?P s'"
    then show "?P (?g ind x s')" using step [of s' ind x] that(2) by simp
  qed (fact that(1))
  have "?P (fold (\<lambda>ind. fold (?g ind) [0..<length (inputv ! ind)]) [0..<length inputv] (alg, t))"
  proof (rule fold_inv_set [where P = ?P])
    fix x s' assume "x \<in> set [0..<length inputv]" and "?P s'"
    then show "?P (fold (?g x) [0..<length (inputv ! x)] s')" using inner [of s' x] by simp
  qed (use assms in simp)
  then show ?thesis
    by (simp add: sx_input_instr_def)
qed

end
